theory Spec2Isabelle
  imports Main "HOL-Library.Word" "HOL-Library.Signed_Division"
begin

unbundle bit_operations_syntax

section \<open>Integers of the source\<close>

text \<open>
  The source is Go. Its \<open>int\<close> and \<open>int64\<close> are 64-bit signed integers whose
  \<open>/\<close> and \<open>%\<close> truncate towards zero: these are \<open>sdiv\<close> and \<open>smod\<close> on
  \<open>int\<close>. The fields of a time value are unsigned machine words (\<open>uint16\<close>,
  \<open>uint8\<close>, \<open>uint32\<close>); they are modelled as words, a conversion \<open>uint8(x)\<close> is
  \<open>word_of_int\<close> into the 8-bit word (it keeps the low bits) and an accessor
  \<open>int(t.year)\<close> is \<open>uint\<close>. The unsigned arithmetic of \<open>timestampDiff\<close>, which can
  wrap around, is arithmetic on 64-bit words.

  \<open>calcDaynr\<close> takes three \<open>int\<close> arguments of any size, so its signed arithmetic
  is written with the wrap-around: \<open>go_int x\<close> is the value a 64-bit \<open>int\<close> holds when
  the exact result is \<open>x\<close>. Wrapping commutes with \<open>+\<close>, \<open>-\<close> and \<open>*\<close>, so it is
  applied once to each expression built from them, and to every operand of a division.
  The other signed arithmetic only meets day numbers and fields of time values, where
  it stays far inside the 64-bit range (lemmas \<open>calcDaynr_fields_range\<close> and
  \<open>calcTimeDiff_total_range\<close> below), and is written on \<open>int\<close>.
\<close>

definition go_int :: "int \<Rightarrow> int" where
  "go_int x = (x + 2 ^ 63) mod 2 ^ 64 - 2 ^ 63"

type_synonym uint8 = "8 word"
type_synonym uint16 = "16 word"
type_synonym uint32 = "32 word"
type_synonym uint = "64 word"

section \<open>Time values\<close>

text \<open>The struct \<open>mysqlTime\<close> and its accessors \<open>Year()\<close> ... \<open>Microsecond()\<close>.\<close>

record mysqlTime =
  year :: uint16
  month :: uint8
  day :: uint8
  hour :: uint8
  minute :: uint8
  second :: uint8
  microsecond :: uint32

definition Year :: "mysqlTime \<Rightarrow> int" where
  "Year t = uint (year t)"

definition Month :: "mysqlTime \<Rightarrow> int" where
  "Month t = uint (month t)"

definition Day :: "mysqlTime \<Rightarrow> int" where
  "Day t = uint (day t)"

definition Hour :: "mysqlTime \<Rightarrow> int" where
  "Hour t = uint (hour t)"

definition Minute :: "mysqlTime \<Rightarrow> int" where
  "Minute t = uint (minute t)"

definition Second :: "mysqlTime \<Rightarrow> int" where
  "Second t = uint (second t)"

definition Microsecond :: "mysqlTime \<Rightarrow> int" where
  "Microsecond t = uint (microsecond t)"

definition newMysqlTime :: "int \<Rightarrow> int \<Rightarrow> int \<Rightarrow> int \<Rightarrow> int \<Rightarrow> int \<Rightarrow> int \<Rightarrow> mysqlTime" where
  "newMysqlTime y mo d h mi s us =
     \<lparr> year = word_of_int y, month = word_of_int mo, day = word_of_int d,
       hour = word_of_int h, minute = word_of_int mi, second = word_of_int s,
       microsecond = word_of_int us \<rparr>"

section \<open>Day numbers\<close>

text \<open>\<open>calcDaynr\<close>: days since 0000-00-00. The source decrements its local \<open>year\<close>
  when \<open>month <= 2\<close>; the model names the decremented value \<open>y'\<close>. The arguments
  stand for 64-bit values, from \<open>- 2 ^ 63\<close> to \<open>2 ^ 63 - 1\<close>; every result of an
  addition, subtraction or multiplication is wrapped by \<open>go_int\<close>.\<close>

definition calcDaynr :: "int \<Rightarrow> int \<Rightarrow> int \<Rightarrow> int" where
  "calcDaynr y m d =
     (if y = 0 \<and> m = 0 then 0
      else
        let delsum = go_int (365 * y + 31 * (m - 1) + d);
            y' = (if m \<le> 2 then go_int (y - 1) else y);
            delsum' = (if m \<le> 2 then delsum
                       else go_int (delsum - go_int (m * 4 + 23) sdiv 10));
            temp = go_int ((y' sdiv 100 + 1) * 3) sdiv 4
        in go_int (delsum' + y' sdiv 4 - temp))"

text \<open>\<open>calcDaysInYear\<close>: \<open>year & 3\<close> is the bitwise and of the source.\<close>

definition calcDaysInYear :: "int \<Rightarrow> int" where
  "calcDaysInYear y =
     (if y AND 3 = 0 \<and> (y smod 100 \<noteq> 0 \<or> (y smod 400 = 0 \<and> y \<noteq> 0)) then 366 else 365)"

text \<open>\<open>calcWeekday\<close>: 0 for Monday, 1 for Tuesday, ...\<close>

definition calcWeekday :: "int \<Rightarrow> bool \<Rightarrow> int" where
  "calcWeekday daynr sundayFirstDayOfWeek =
     (let daynr1 = daynr + 5;
          daynr2 = (if sundayFirstDayOfWeek then daynr1 + 1 else daynr1)
      in daynr2 smod 7)"


section \<open>Week numbers\<close>

text \<open>The flags of \<open>weekBehaviour\<close> (\<open>1 << iota\<close>) and the method \<open>test\<close>.\<close>

type_synonym weekBehaviour = uint

definition weekBehaviourMondayFirst :: weekBehaviour where
  "weekBehaviourMondayFirst = 1"

definition weekBehaviourYear :: weekBehaviour where
  "weekBehaviourYear = 2"

definition weekBehaviourFirstWeekday :: weekBehaviour where
  "weekBehaviourFirstWeekday = 4"

definition test :: "weekBehaviour \<Rightarrow> weekBehaviour \<Rightarrow> bool" where
  "test v flag = (v AND flag \<noteq> 0)"

definition weekMode :: "int \<Rightarrow> weekBehaviour" where
  "weekMode mode =
     (let weekFormat = (word_of_int (mode AND 7) :: weekBehaviour)
      in if weekFormat AND weekBehaviourMondayFirst = 0
         then weekFormat XOR weekBehaviourFirstWeekday
         else weekFormat)"

text \<open>\<open>calcWeek\<close> returns \<open>(year, week)\<close>. The variables the source reassigns in its
  first \<open>if\<close> (\<open>weekYear\<close>, \<open>year\<close>, \<open>firstDaynr\<close>, \<open>weekday\<close>) are rebound as a tuple;
  the early return of week 0 is the first branch.\<close>

definition calcWeek :: "mysqlTime \<Rightarrow> weekBehaviour \<Rightarrow> int \<times> int" where
  "calcWeek t wb =
     (let daynr = calcDaynr (uint (year t)) (uint (month t)) (uint (day t));
          firstDaynr = calcDaynr (uint (year t)) 1 1;
          mondayFirst = test wb weekBehaviourMondayFirst;
          weekYear = test wb weekBehaviourYear;
          firstWeekday = test wb weekBehaviourFirstWeekday;
          weekday = calcWeekday firstDaynr (\<not> mondayFirst);
          yr = uint (year t);
          firstPart = (month t = 1 \<and> uint (day t) \<le> 7 - weekday)
      in if firstPart \<and> \<not> weekYear \<and>
            ((firstWeekday \<and> weekday \<noteq> 0) \<or> (\<not> firstWeekday \<and> weekday \<ge> 4))
         then (yr, 0)
         else
           let (weekYear1, yr1, firstDaynr1, weekday1) =
                 (if firstPart
                  then (True, yr - 1, firstDaynr - calcDaysInYear (yr - 1),
                        (weekday + 53 * 7 - calcDaysInYear (yr - 1)) smod 7)
                  else (weekYear, yr, firstDaynr, weekday));
               days = (if (firstWeekday \<and> weekday1 \<noteq> 0) \<or> (\<not> firstWeekday \<and> weekday1 \<ge> 4)
                       then daynr - (firstDaynr1 + 7 - weekday1)
                       else daynr - (firstDaynr1 - weekday1));
               weekday2 = (weekday1 + calcDaysInYear yr1) smod 7
           in if weekYear1 \<and> days \<ge> 52 * 7 \<and>
                 ((\<not> firstWeekday \<and> weekday2 < 4) \<or> (firstWeekday \<and> weekday2 = 0))
              then (yr1 + 1, 1)
              else (yr1, days sdiv 7 + 1))"

definition YearWeek :: "mysqlTime \<Rightarrow> int \<Rightarrow> int \<times> int" where
  "YearWeek t mode = calcWeek t (weekMode mode OR weekBehaviourYear)"

definition Week :: "mysqlTime \<Rightarrow> int \<Rightarrow> int" where
  "Week t mode =
     (if month t = 0 \<or> day t = 0 then 0
      else snd (calcWeek t (weekMode mode)))"

definition YearDay :: "mysqlTime \<Rightarrow> int" where
  "YearDay t =
     (if month t = 0 \<or> day t = 0 then 0
      else calcDaynr (uint (year t)) (uint (month t)) (uint (day t)) -
           calcDaynr (uint (year t)) 1 1 + 1)"

section \<open>Elapsed time and differences\<close>

text \<open>\<open>calcTimeFromSec\<close> writes four fields of \<open>to\<close>; the model returns the updated
  value.\<close>

definition calcTimeFromSec :: "mysqlTime \<Rightarrow> int \<Rightarrow> int \<Rightarrow> mysqlTime" where
  "calcTimeFromSec to seconds microseconds =
     (let seconds1 = seconds smod 3600
      in to\<lparr> hour := word_of_int (seconds sdiv 3600),
             minute := word_of_int (seconds1 sdiv 60),
             second := word_of_int (seconds1 smod 60),
             microsecond := word_of_int microseconds \<rparr>)"

definition secondsIn24Hour :: int where
  "secondsIn24Hour = 86400"

text \<open>The value of \<open>tmp\<close> in \<open>calcTimeDiff\<close> before its sign is removed.\<close>

definition calcTimeDiff_total :: "mysqlTime \<Rightarrow> mysqlTime \<Rightarrow> int \<Rightarrow> int" where
  "calcTimeDiff_total t1 t2 sign =
     (let days = calcDaynr (Year t1) (Month t1) (Day t1)
                 - sign * calcDaynr (Year t2) (Month t2) (Day t2)
      in (days * secondsIn24Hour + Hour t1 * 3600 + Minute t1 * 60 + Second t1
            - sign * (Hour t2 * 3600 + Minute t2 * 60 + Second t2)) * 1000000
         + Microsecond t1 - sign * Microsecond t2)"

text \<open>\<open>calcTimeDiff\<close> returns \<open>(seconds, microseconds, neg)\<close>.\<close>

definition calcTimeDiff :: "mysqlTime \<Rightarrow> mysqlTime \<Rightarrow> int \<Rightarrow> int \<times> int \<times> bool" where
  "calcTimeDiff t1 t2 sign =
     (let tmp = calcTimeDiff_total t1 t2 sign;
          neg = (tmp < 0);
          tmp1 = (if tmp < 0 then - tmp else tmp)
      in (tmp1 sdiv 1000000, tmp1 smod 1000000, neg))"

section \<open>Interval differences\<close>

definition intervalYEAR :: string where "intervalYEAR = ''YEAR''"
definition intervalQUARTER :: string where "intervalQUARTER = ''QUARTER''"
definition intervalMONTH :: string where "intervalMONTH = ''MONTH''"
definition intervalWEEK :: string where "intervalWEEK = ''WEEK''"
definition intervalDAY :: string where "intervalDAY = ''DAY''"
definition intervalHOUR :: string where "intervalHOUR = ''HOUR''"
definition intervalMINUTE :: string where "intervalMINUTE = ''MINUTE''"
definition intervalSECOND :: string where "intervalSECOND = ''SECOND''"
definition intervalMICROSECOND :: string where "intervalMICROSECOND = ''MICROSECOND''"

text \<open>The month count of \<open>timestampDiff\<close>: the statements under \<open>// calc years\<close> and
  \<open>// calc months\<close>, on the ten \<open>uint\<close> variables the source has assigned from the
  earlier and the later value. All arithmetic is unsigned 64-bit and wraps.\<close>

definition timestampDiff_months ::
  "uint \<Rightarrow> uint \<Rightarrow> uint \<Rightarrow> uint \<Rightarrow> uint \<Rightarrow> uint \<Rightarrow> uint \<Rightarrow> uint \<Rightarrow> uint \<Rightarrow> uint \<Rightarrow> uint" where
  "timestampDiff_months yearBeg yearEnd monthBeg monthEnd dayBeg dayEnd
       secondBeg secondEnd microsecondBeg microsecondEnd =
     (let years = yearEnd - yearBeg;
          years1 = (if monthEnd < monthBeg \<or> (monthEnd = monthBeg \<and> dayEnd < dayBeg)
                    then years - 1 else years);
          months = 12 * years1;
          months1 = (if monthEnd < monthBeg \<or> (monthEnd = monthBeg \<and> dayEnd < dayBeg)
                     then months + (12 - (monthBeg - monthEnd))
                     else months + (monthEnd - monthBeg))
      in if dayEnd < dayBeg then months1 - 1
         else if dayEnd = dayBeg \<and>
                 (secondEnd < secondBeg \<or>
                  (secondEnd = secondBeg \<and> microsecondEnd < microsecondBeg))
         then months1 - 1
         else months1)"

text \<open>\<open>timestampDiff\<close>. \<open>uint(x)\<close> of an \<open>int\<close> is \<open>word_of_int\<close>, \<open>int64(months)\<close> is
  \<open>sint\<close>. In the \<open>MONTH\<close> case the product \<open>int64(months) * negV\<close> is taken in the
  64-bit word, so that it wraps as the source's does; the other products cannot leave
  the 64-bit range (the quotient has been divided, or \<open>seconds\<close> comes from
  \<open>calcTimeDiff\<close>).\<close>

definition timestampDiff :: "string \<Rightarrow> mysqlTime \<Rightarrow> mysqlTime \<Rightarrow> int" where
  "timestampDiff intervalType t1 t2 =
     (let (seconds, microseconds, neg) = calcTimeDiff t2 t1 1;
          months =
            (if intervalType = intervalYEAR \<or> intervalType = intervalQUARTER \<or>
                intervalType = intervalMONTH
             then
               if neg
               then timestampDiff_months
                      (word_of_int (Year t2)) (word_of_int (Year t1))
                      (word_of_int (Month t2)) (word_of_int (Month t1))
                      (word_of_int (Day t2)) (word_of_int (Day t1))
                      (word_of_int (Hour t2 * 3600 + Minute t2 * 60 + Second t2))
                      (word_of_int (Hour t1 * 3600 + Minute t1 * 60 + Second t1))
                      (word_of_int (Microsecond t2)) (word_of_int (Microsecond t1))
               else timestampDiff_months
                      (word_of_int (Year t1)) (word_of_int (Year t2))
                      (word_of_int (Month t1)) (word_of_int (Month t2))
                      (word_of_int (Day t1)) (word_of_int (Day t2))
                      (word_of_int (Hour t1 * 3600 + Minute t1 * 60 + Second t1))
                      (word_of_int (Hour t2 * 3600 + Minute t2 * 60 + Second t2))
                      (word_of_int (Microsecond t1)) (word_of_int (Microsecond t2))
             else 0);
          negV = (if neg then - 1 else 1 :: int)
      in if intervalType = intervalYEAR then sint months sdiv 12 * negV
         else if intervalType = intervalQUARTER then sint months sdiv 3 * negV
         else if intervalType = intervalMONTH
           then sint (months * (if neg then - 1 else 1))
         else if intervalType = intervalWEEK then seconds sdiv secondsIn24Hour sdiv 7 * negV
         else if intervalType = intervalDAY then seconds sdiv secondsIn24Hour * negV
         else if intervalType = intervalHOUR then seconds sdiv 3600 * negV
         else if intervalType = intervalMINUTE then seconds sdiv 60 * negV
         else if intervalType = intervalSECOND then seconds * negV
         else if intervalType = intervalMICROSECOND
           then (seconds * 1000000 + microseconds) * negV
         else 0)"

section \<open>Conversion to the standard calendar\<close>

text \<open>Modelled from the spec: the standard calendar representation that \<open>GoTime\<close>
  converts to is the \<open>time\<close> package of the Go library (\<open>Date\<close>, and the accessors
  \<open>Date()\<close>, \<open>Clock()\<close> and \<open>Nanosecond()\<close> of its result), whose code is not part of
  the repository. The spec says of it that it cannot represent month 0 or day 0 and
  silently normalises out-of-range values to a nearby valid date. The model is the
  proleptic Gregorian calendar in a zone of fixed offset: a time is the count of
  seconds since 0001-01-01 00:00:00 with a nanosecond part, \<open>gotime_Date\<close> carries
  every out-of-range field into the next larger one, and the accessors read the fields
  back. Zones whose offset changes (daylight saving time) are not modelled.\<close>

record gotime_Time =
  secs :: int
  nsec :: int

definition gotime_norm :: "int \<Rightarrow> int \<Rightarrow> int \<Rightarrow> int \<times> int" where
  "gotime_norm hi lo base = (hi + lo div base, lo mod base)"

definition gotime_isLeap :: "int \<Rightarrow> bool" where
  "gotime_isLeap y = (y mod 4 = 0 \<and> (y mod 100 \<noteq> 0 \<or> y mod 400 = 0))"

definition gotime_daysBefore :: "int list" where
  "gotime_daysBefore = [0, 31, 59, 90, 120, 151, 181, 212, 243, 273, 304, 334, 365]"

definition gotime_daysSinceEpoch :: "int \<Rightarrow> int" where
  "gotime_daysSinceEpoch y =
     365 * (y - 1) + (y - 1) div 4 - (y - 1) div 100 + (y - 1) div 400"

definition gotime_Date :: "int \<Rightarrow> int \<Rightarrow> int \<Rightarrow> int \<Rightarrow> int \<Rightarrow> int \<Rightarrow> int \<Rightarrow> gotime_Time" where
  "gotime_Date y mo d h mi s ns =
     (let (y1, m) = gotime_norm y (mo - 1) 12;
          mo1 = m + 1;
          (s1, ns1) = gotime_norm s ns 1000000000;
          (mi1, s2) = gotime_norm mi s1 60;
          (h1, mi2) = gotime_norm h mi1 60;
          (d1, h2) = gotime_norm d h1 24;
          days = gotime_daysSinceEpoch y1 + gotime_daysBefore ! nat (mo1 - 1)
                 + (if gotime_isLeap y1 \<and> mo1 \<ge> 3 then 1 else 0) + (d1 - 1)
      in \<lparr> secs = days * 86400 + h2 * 3600 + mi2 * 60 + s2, nsec = ns1 \<rparr>)"

text \<open>Modelled from the spec: the accessor \<open>Date()\<close> of the library, the year, month
  and day of a time, found by cycles of 400, 100, 4 and 1 years.\<close>

definition gotime_date :: "gotime_Time \<Rightarrow> int \<times> int \<times> int" where
  "gotime_date tm =
     (let d = secs tm div 86400;
          n400 = d div 146097;
          d1 = d mod 146097;
          n100 = min 3 (d1 div 36524);
          d2 = d1 - 36524 * n100;
          n4 = d2 div 1461;
          d3 = d2 mod 1461;
          n1 = min 3 (d3 div 365);
          yday = d3 - 365 * n1;
          y = 400 * n400 + 100 * n100 + 4 * n4 + n1 + 1
      in if gotime_isLeap y \<and> yday = 31 + 29 - 1 then (y, 2, 29)
         else
           let dd = (if gotime_isLeap y \<and> yday > 31 + 29 - 1 then yday - 1 else yday);
               m = dd div 31;
               end = gotime_daysBefore ! nat (m + 1)
           in if dd \<ge> end then (y, m + 2, dd - end + 1)
              else (y, m + 1, dd - gotime_daysBefore ! nat m + 1))"

text \<open>Modelled from the spec: the accessors \<open>Clock()\<close> (hour, minute and second of a
  time) and \<open>Nanosecond()\<close> of the library.\<close>

definition gotime_clock :: "gotime_Time \<Rightarrow> int \<times> int \<times> int" where
  "gotime_clock tm =
     (let s = secs tm mod 86400
      in (s div 3600, s mod 3600 div 60, s mod 60))"

definition gotime_Nanosecond :: "gotime_Time \<Rightarrow> int" where
  "gotime_Nanosecond tm = nsec tm"

text \<open>\<open>GoTime\<close> returns the converted time together with the error, which is absent
  (\<open>None\<close>) when every field read back equals the field given.\<close>

datatype error = ErrInvalidTimeFormat

definition GoTime :: "mysqlTime \<Rightarrow> gotime_Time \<times> error option" where
  "GoTime t =
     (let tm = gotime_Date (Year t) (Month t) (Day t) (Hour t) (Minute t) (Second t)
                 (Microsecond t * 1000);
          (year1, month1, day1) = gotime_date tm;
          (hour1, minute1, second1) = gotime_clock tm;
          microsec = gotime_Nanosecond tm sdiv 1000
      in if year1 \<noteq> Year t \<or> month1 \<noteq> Month t \<or> day1 \<noteq> Day t \<or>
            hour1 \<noteq> Hour t \<or> minute1 \<noteq> Minute t \<or> second1 \<noteq> Second t \<or>
            microsec \<noteq> Microsecond t
         then (tm, Some ErrInvalidTimeFormat)
         else (tm, None))"

section \<open>Calendar dates, for stating the properties\<close>

text \<open>The real (Gregorian) calendar, independent of the code: leap years, the length
  of a month, what a calendar date is, and the day after a date.\<close>

definition leapYear :: "int \<Rightarrow> bool" where
  "leapYear y = (y mod 4 = 0 \<and> (y mod 100 \<noteq> 0 \<or> y mod 400 = 0))"

definition daysInMonth :: "int \<Rightarrow> int \<Rightarrow> int" where
  "daysInMonth y m =
     (if m = 2 then (if leapYear y then 29 else 28)
      else if m = 4 \<or> m = 6 \<or> m = 9 \<or> m = 11 then 30
      else 31)"

definition validDate :: "int \<Rightarrow> int \<Rightarrow> int \<Rightarrow> bool" where
  "validDate y m d = (1 \<le> y \<and> 1 \<le> m \<and> m \<le> 12 \<and> 1 \<le> d \<and> d \<le> daysInMonth y m)"


text \<open>The day number on unbounded integers, where nothing wraps.\<close>

definition calcDaynr_exact :: "int \<Rightarrow> int \<Rightarrow> int \<Rightarrow> int" where
  "calcDaynr_exact y m d =
     (if y = 0 \<and> m = 0 then 0
      else
        let delsum = 365 * y + 31 * (m - 1) + d;
            y' = (if m \<le> 2 then y - 1 else y);
            delsum' = (if m \<le> 2 then delsum else delsum - (m * 4 + 23) sdiv 10);
            temp = ((y' sdiv 100 + 1) * 3) sdiv 4
        in delsum' + y' sdiv 4 - temp)"

text \<open>The number of leap years among the years 1 to \<open>y\<close>, the days of the years before
  year \<open>y\<close>, and the days of year \<open>y\<close> before its month \<open>m\<close>.\<close>

definition leapDays :: "int \<Rightarrow> int" where
  "leapDays y = y div 4 - y div 100 + y div 400"

definition daysBeforeYear :: "int \<Rightarrow> int" where
  "daysBeforeYear y = 365 * (y - 1) + leapDays (y - 1)"

definition daysBeforeMonth :: "int \<Rightarrow> int \<Rightarrow> int" where
  "daysBeforeMonth y m =
     (if m = 1 then 0 else if m = 2 then 31 else if m = 3 then 59 else if m = 4 then 90
      else if m = 5 then 120 else if m = 6 then 151 else if m = 7 then 181
      else if m = 8 then 212 else if m = 9 then 243 else if m = 10 then 273
      else if m = 11 then 304 else 334)
     + (if leapYear y \<and> 3 \<le> m then 1 else 0)"

text \<open>A time value that is a real calendar date with a wall-clock time.\<close>

definition validTime :: "mysqlTime \<Rightarrow> bool" where
  "validTime t =
     (validDate (Year t) (Month t) (Day t) \<and> Hour t \<le> 23 \<and> Minute t \<le> 59 \<and>
      Second t \<le> 59 \<and> Microsecond t \<le> 999999)"

text \<open>\<open>earlier a b\<close>: \<open>a\<close> comes before \<open>b\<close>, field by field from the year down to the
  microsecond.\<close>

definition earlier :: "mysqlTime \<Rightarrow> mysqlTime \<Rightarrow> bool" where
  "earlier a b =
     (Year a < Year b \<or> (Year a = Year b \<and>
      (Month a < Month b \<or> (Month a = Month b \<and>
      (Day a < Day b \<or> (Day a = Day b \<and>
      (Hour a < Hour b \<or> (Hour a = Hour b \<and>
      (Minute a < Minute b \<or> (Minute a = Minute b \<and>
      (Second a < Second b \<or> (Second a = Second b \<and>
       Microsecond a < Microsecond b))))))))))))"

text \<open>The second of the day, and the instant of a time value in microseconds, counted
  with the day number of the code.\<close>

definition clockSeconds :: "mysqlTime \<Rightarrow> int" where
  "clockSeconds t = Hour t * 3600 + (Minute t * 60 + Second t)"

definition instant :: "mysqlTime \<Rightarrow> int" where
  "instant t =
     (calcDaynr (Year t) (Month t) (Day t) * 86400 + clockSeconds t) * 1000000 + Microsecond t"

text \<open>The month count of \<open>timestampDiff\<close> on unbounded integers, where nothing wraps.\<close>

definition monthsBetween ::
  "int \<Rightarrow> int \<Rightarrow> int \<Rightarrow> int \<Rightarrow> int \<Rightarrow> int \<Rightarrow> int \<Rightarrow> int \<Rightarrow> int \<Rightarrow> int \<Rightarrow> int" where
  "monthsBetween yearBeg yearEnd monthBeg monthEnd dayBeg dayEnd
       secondBeg secondEnd microsecondBeg microsecondEnd =
     (let years = yearEnd - yearBeg;
          years1 = (if monthEnd < monthBeg \<or> (monthEnd = monthBeg \<and> dayEnd < dayBeg)
                    then years - 1 else years);
          months = 12 * years1;
          months1 = (if monthEnd < monthBeg \<or> (monthEnd = monthBeg \<and> dayEnd < dayBeg)
                     then months + (12 - (monthBeg - monthEnd))
                     else months + (monthEnd - monthBeg))
      in if dayEnd < dayBeg then months1 - 1
         else if dayEnd = dayBeg \<and>
                 (secondEnd < secondBeg \<or>
                  (secondEnd = secondBeg \<and> microsecondEnd < microsecondBeg))
         then months1 - 1
         else months1)"

section \<open>Arithmetic of the source on non-negative values\<close>

lemma sdiv_nonneg: "0 \<le> a \<Longrightarrow> 0 < b \<Longrightarrow> (a::int) sdiv b = a div b"
  by (cases "a = 0") (simp_all add: signed_divide_int_def)

lemma smod_nonneg: "0 \<le> a \<Longrightarrow> 0 < b \<Longrightarrow> (a::int) smod b = a mod b"
  by (cases "a = 0") (simp_all add: signed_modulo_int_def)

lemma sdiv_abs_le: "\<bar>(a::int) sdiv b\<bar> \<le> \<bar>a\<bar>"
  using sdiv_int_range [of a b] by auto

lemma go_int_id: "- (2 ^ 63) \<le> x \<Longrightarrow> x < 2 ^ 63 \<Longrightarrow> go_int x = x"
  by (simp add: go_int_def)

lemmas interval_defs = intervalYEAR_def intervalQUARTER_def intervalMONTH_def
  intervalWEEK_def intervalDAY_def intervalHOUR_def intervalMINUTE_def intervalSECOND_def
  intervalMICROSECOND_def

section \<open>Week mode and week numbers\<close>

lemma test_bit0: "test v weekBehaviourMondayFirst = bit v 0"
  using and_exp_eq_0_iff_not_bit [of v 0] by (simp add: test_def weekBehaviourMondayFirst_def)

lemma test_bit1: "test v weekBehaviourYear = bit v 1"
  using and_exp_eq_0_iff_not_bit [of v 1] by (simp add: test_def weekBehaviourYear_def)

lemma test_bit2: "test v weekBehaviourFirstWeekday = bit v 2"
  using and_exp_eq_0_iff_not_bit [of v 2] by (simp add: test_def weekBehaviourFirstWeekday_def)

lemma bit_7: "bit (7::int) n = (n < 3)"
proof -
  have "bit (mask 3 :: int) n = (n < 3)" by (simp add: bit_mask_iff)
  moreover have "(mask 3 :: int) = 7" by (simp add: mask_eq_exp_minus_1)
  ultimately show ?thesis by simp
qed

lemma bit_4: "bit (4::int) n = (n = 2)"
proof -
  have "bit (2 ^ 2 :: int) n = (n = 2)" by (simp only: bit_exp_iff) auto
  then show ?thesis by simp
qed

lemma weekMode_cond:
  "((word_of_int (mode AND 7) :: uint) AND weekBehaviourMondayFirst = 0) = (\<not> bit mode 0)"
  using and_exp_eq_0_iff_not_bit [of "word_of_int (mode AND 7) :: uint" 0]
  by (simp add: weekBehaviourMondayFirst_def bit_simps bit_7)

lemma weekMode_alt:
  "weekMode mode =
     (if bit mode 0 then word_of_int (mode AND 7)
      else word_of_int (mode AND 7) XOR weekBehaviourFirstWeekday)"
  by (simp add: weekMode_def Let_def weekMode_cond)

lemma weekMode_bit:
  "bit (weekMode mode) n =
     (n < 3 \<and> (if n = 2 then bit mode 2 \<noteq> (\<not> bit mode 0) else bit mode n))"
  by (auto simp add: weekMode_alt weekBehaviourFirstWeekday_def bit_simps bit_7 bit_4)

lemma weekMode_le: "weekMode mode \<le> 7"
proof -
  have "weekMode mode AND mask 3 = weekMode mode"
    by (rule bit_eqI) (auto simp add: bit_simps weekMode_bit)
  then have "weekMode mode \<le> mask 3" by (metis word_and_le1)
  then show ?thesis by (simp add: mask_eq_exp_minus_1)
qed

text \<open>
  C1 (as amended). For the date 2000-01-01, \<open>YearWeek\<close> (that is \<open>calcWeek\<close> with the
  year flag forced on) returns year 1999 and week 52 with mode 0, and it returns year
  1999 and week 52 with mode 1 as well: with Monday as the first day, the week of
  Saturday 2000-01-01 has only two days in 2000 and belongs to 1999.
\<close>

theorem YearWeek_2000_01_01:
  "YearWeek (newMysqlTime 2000 1 1 0 0 0 0) 0 = (1999, 52) \<and>
   YearWeek (newMysqlTime 2000 1 1 0 0 0 0) 1 = (1999, 52)"
  by code_simp

text \<open>C1 as stated fails: with mode 1 the result is not year 2000, week 1.\<close>

theorem YearWeek_2000_01_01_mode1_not_2000_1:
  "YearWeek (newMysqlTime 2000 1 1 0 0 0 0) 1 \<noteq> (2000, 1)"
  by code_simp

text \<open>
  C3. For every integer mode, the flags of \<open>weekMode mode\<close> are the low three bits of
  the mode: MondayFirst is bit 0, Year is bit 1, and FirstWeekday is bit 2 toggled
  exactly when bit 0 is unset; no other bit is set. Mode 0 gives FirstWeekday alone
  (MondayFirst unset), mode 1 gives MondayFirst alone (FirstWeekday off).
\<close>

theorem weekMode_decodes:
  "test (weekMode mode) weekBehaviourMondayFirst = bit mode 0 \<and>
   test (weekMode mode) weekBehaviourYear = bit mode 1 \<and>
   test (weekMode mode) weekBehaviourFirstWeekday = (bit mode 2 \<noteq> (\<not> bit mode 0)) \<and>
   weekMode mode =
     (if bit mode 0 then word_of_int (mode AND 7)
      else word_of_int (mode AND 7) XOR weekBehaviourFirstWeekday) \<and>
   weekMode mode \<le> 7 \<and>
   weekMode 0 = weekBehaviourFirstWeekday \<and>
   weekMode 1 = weekBehaviourMondayFirst"
proof -
  have c: "weekMode 0 = weekBehaviourFirstWeekday" "weekMode 1 = weekBehaviourMondayFirst"
    by (simp_all add: weekMode_def weekBehaviourFirstWeekday_def weekBehaviourMondayFirst_def)
  have f: "test (weekMode mode) weekBehaviourMondayFirst = bit mode 0"
    "test (weekMode mode) weekBehaviourYear = bit mode 1"
    "test (weekMode mode) weekBehaviourFirstWeekday = (bit mode 2 \<noteq> (\<not> bit mode 0))"
    by (simp_all add: test_bit0 test_bit1 test_bit2 weekMode_bit)
  show ?thesis
    using weekMode_le [of mode] weekMode_alt [of mode] c f by simp
qed

text \<open>
  C9. For every mode, \<open>Week\<close> of a time value whose month field is 0 or whose day
  field is 0 is 0; \<open>calcWeek\<close> is not consulted.
\<close>

theorem Week_zero_field: "month t = 0 \<or> day t = 0 \<Longrightarrow> Week t mode = 0"
  by (auto simp add: Week_def)

theorem Week_zero_field_witness:
  "Week (newMysqlTime 2000 0 15 0 0 0 0) 3 = 0 \<and> Week (newMysqlTime 2000 6 0 0 0 0 0) 0 = 0"
  using Week_zero_field [of "newMysqlTime 2000 0 15 0 0 0 0" 3]
    Week_zero_field [of "newMysqlTime 2000 6 0 0 0 0 0" 0]
  by (simp add: newMysqlTime_def)

section \<open>Day numbers\<close>

text \<open>
  C7. For every day value, \<open>calcDaynr 0 0 day = 0\<close>: with year 0 and month 0 the day
  number is 0 whatever the day field is.
\<close>

theorem calcDaynr_zero_date: "calcDaynr 0 0 d = 0"
  by (simp add: calcDaynr_def)

text \<open>Up to year \<open>2 ^ 54\<close>, and for months and days that fit a byte, no operation
  of \<open>calcDaynr\<close> leaves the 64-bit range.\<close>

lemma calcDaynr_no_wrap:
  assumes "0 \<le> y" "y \<le> 2 ^ 54 + 1" "0 \<le> m" "m \<le> 255" "0 \<le> d" "d \<le> 255"
  shows "calcDaynr y m d = calcDaynr_exact y m d"
proof -
  have b: "y \<le> 18014398509481985" using assms(2) by simp
  define E where "E = (m * 4 + 23) sdiv 10"
  have E: "- 1043 \<le> E" "E \<le> 1043"
    using sdiv_abs_le [of "m * 4 + 23" 10] assms(3,4) unfolding E_def by linarith+
  have i1: "go_int (365 * y + 31 * (m - 1) + d) = 365 * y + 31 * (m - 1) + d"
    using assms(1,3-6) b by (intro go_int_id) simp_all
  have i2: "go_int (y - 1) = y - 1"
    using assms(1) b by (intro go_int_id) simp_all
  have i3: "go_int (m * 4 + 23) = m * 4 + 23"
    using assms(3,4) by (intro go_int_id) simp_all
  have i4: "go_int (365 * y + 31 * (m - 1) + d - E) = 365 * y + 31 * (m - 1) + d - E"
    using assms(1,3-6) b E by (intro go_int_id) simp_all
  have r: "go_int ((x sdiv 100 + 1) * 3) = (x sdiv 100 + 1) * 3
      \<and> go_int (v + x sdiv 4 - ((x sdiv 100 + 1) * 3) sdiv 4)
          = v + x sdiv 4 - ((x sdiv 100 + 1) * 3) sdiv 4"
    if x: "- 1 \<le> x" "x \<le> 18014398509481985" and v: "- 2000 \<le> v" "v \<le> 365 * y + 10000"
    for x v
  proof -
    define A where "A = x sdiv 4"
    define C where "C = x sdiv 100"
    define T where "T = ((C + 1) * 3) sdiv 4"
    have A: "\<bar>A\<bar> \<le> 18014398509481985"
      using sdiv_abs_le [of x 4] x unfolding A_def by linarith
    have C: "\<bar>C\<bar> \<le> 18014398509481985"
      using sdiv_abs_le [of x 100] x unfolding C_def by linarith
    have C3: "- 54043195528445958 \<le> (C + 1) * 3" "(C + 1) * 3 \<le> 54043195528445958"
      using C by (auto simp add: abs_le_iff)
    then have "\<bar>(C + 1) * 3\<bar> \<le> 54043195528445958" by (simp add: abs_le_iff)
    then have T: "\<bar>T\<bar> \<le> 54043195528445958"
      using sdiv_abs_le [of "(C + 1) * 3" 4] unfolding T_def by linarith
    have "go_int ((C + 1) * 3) = (C + 1) * 3"
      using C3 by (intro go_int_id) simp_all
    moreover have "- 9223372036854775808 \<le> v + A - T" "v + A - T < 9223372036854775808"
      using A T v b by linarith+
    then have "go_int (v + A - T) = v + A - T"
      by (intro go_int_id) simp_all
    ultimately show ?thesis unfolding T_def C_def A_def by simp
  qed
  show ?thesis
  proof (cases "y = 0 \<and> m = 0")
    case True
    then show ?thesis by (simp add: calcDaynr_def calcDaynr_exact_def)
  next
    case nz: False
    show ?thesis
    proof (cases "m \<le> 2")
      case True
      have v: "- 2000 \<le> 365 * y + 31 * (m - 1) + d" "365 * y + 31 * (m - 1) + d \<le> 365 * y + 10000"
        using assms(1,3-6) by simp_all
      have x: "- 1 \<le> y - 1" "y - 1 \<le> 18014398509481985" using assms(1) b by linarith+
      note r1 = r [OF x v]
      show ?thesis
        unfolding calcDaynr_def calcDaynr_exact_def Let_def
        using nz True by (simp only: if_True if_False i1 i2 r1)
    next
      case False
      have v: "- 2000 \<le> 365 * y + 31 * (m - 1) + d - E" "365 * y + 31 * (m - 1) + d - E \<le> 365 * y + 10000"
        using assms(1,3-6) E by simp_all
      have x: "- 1 \<le> y" "y \<le> 18014398509481985" using assms(1) b by linarith+
      note r1 = r [OF x v, unfolded E_def]
      show ?thesis
        unfolding calcDaynr_def calcDaynr_exact_def Let_def
        using nz False by (simp only: if_True if_False i1 i3 i4 [unfolded E_def] r1)
    qed
  qed
qed

text \<open>For years from 1 on, \<open>calcDaynr\<close> is the count of days of the real calendar:
  365 for the year 0 of the code, the days of the years before, the days of the months
  before, and the day.\<close>

lemma temp_qr:
  fixes q r :: int
  assumes "0 \<le> r" and "r < 4"
  shows "(4 * q + r + 1) * 3 div 4 = 3 * q + r"
proof -
  have e: "(4 * q + r + 1) * 3 = (3 * r + 3) + 4 * (3 * q)" by (simp add: algebra_simps)
  have "r = 0 \<or> r = 1 \<or> r = 2 \<or> r = 3" using assms by linarith
  then have s: "(3 * r + 3) div 4 = r" by (elim disjE) simp_all
  have "(4 * q + r + 1) * 3 div 4 = ((3 * r + 3) + 4 * (3 * q)) div 4"
    by (simp only: e)
  also have "\<dots> = (3 * r + 3) div 4 + 3 * q"
    by simp
  also have "\<dots> = r + 3 * q"
    by (simp only: s)
  finally show ?thesis by simp
qed

lemma temp_eq: "((c::int) + 1) * 3 div 4 = c - c div 4"
proof -
  define q where "q = c div 4"
  define r where "r = c mod 4"
  have c: "c = 4 * q + r" unfolding q_def r_def by simp
  have r: "0 \<le> r" "r < 4" unfolding r_def by simp_all
  have "(c + 1) * 3 div 4 = 3 * q + r"
    using temp_qr [OF r, of q] by (simp only: c)
  also have "\<dots> = c - q" using c by simp
  finally show ?thesis unfolding q_def .
qed

lemma div_step:
  assumes k: "0 < k"
  shows "(y::int) div k = (y - 1) div k + (if y mod k = 0 then 1 else 0)"
proof (cases "y mod k = 0")
  case True
  have "y = k * (y div k)" using True by auto
  then have e: "y - 1 = k * (y div k - 1) + (k - 1)" by (simp add: algebra_simps)
  have "(k * (y div k - 1) + (k - 1)) div k = y div k - 1" using k by simp
  then have "(y - 1) div k = y div k - 1" by (simp only: e)
  then show ?thesis using True by simp
next
  case False
  have "0 \<le> y mod k" using k by (rule pos_mod_sign)
  then have r: "0 < y mod k" "y mod k < k" using False pos_mod_bound[OF k, of y]
    by linarith+
  have e: "y - 1 = k * (y div k) + (y mod k - 1)" by (simp add: algebra_simps)
  have "(k * (y div k) + (y mod k - 1)) div k = y div k" using k r by simp
  then have "(y - 1) div k = y div k" by (simp only: e)
  then show ?thesis using False by simp
qed

lemma mod_0_cancel:
  fixes y :: int
  assumes "k dvd n" and "y mod n = 0"
  shows "y mod k = 0"
proof -
  have "y mod n mod k = y mod k" using assms(1) by (rule mod_mod_cancel)
  then show ?thesis by (simp only: assms(2)) simp
qed

lemma leap_count_step:
  fixes a4 a100 a400 :: int
  assumes "p100 \<Longrightarrow> p4" and "p400 \<Longrightarrow> p100"
  shows "(a4 + (if p4 then 1 else 0)) - (a100 + (if p100 then 1 else 0))
           + (a400 + (if p400 then 1 else 0))
         = a4 - a100 + a400 + (if p4 \<and> (\<not> p100 \<or> p400) then 1 else 0)"
  using assms by (cases p4; cases p100; cases p400; simp)

lemma leapDays_step: "leapDays y = leapDays (y - 1) + (if leapYear y then 1 else 0)"
proof -
  have a: "y div 4 = (y - 1) div 4 + (if y mod 4 = 0 then 1 else 0)"
    by (rule div_step) simp
  have b: "y div 100 = (y - 1) div 100 + (if y mod 100 = 0 then 1 else 0)"
    by (rule div_step) simp
  have c: "y div 400 = (y - 1) div 400 + (if y mod 400 = 0 then 1 else 0)"
    by (rule div_step) simp
  have d1: "y mod 100 = 0 \<Longrightarrow> y mod 4 = 0"
    by (rule mod_0_cancel [of 4 100]) simp_all
  have d2: "y mod 400 = 0 \<Longrightarrow> y mod 100 = 0"
    by (rule mod_0_cancel [of 100 400]) simp_all
  have "y div 4 - y div 100 + y div 400 =
      ((y - 1) div 4 + (if y mod 4 = 0 then 1 else 0))
      - ((y - 1) div 100 + (if y mod 100 = 0 then 1 else 0))
      + ((y - 1) div 400 + (if y mod 400 = 0 then 1 else 0))"
    by (simp only: a b c)
  also have "\<dots> = (y - 1) div 4 - (y - 1) div 100 + (y - 1) div 400
      + (if y mod 4 = 0 \<and> (y mod 100 \<noteq> 0 \<or> y mod 400 = 0) then 1 else 0)"
    using d1 d2 by (rule leap_count_step)
  finally show ?thesis
    unfolding leapDays_def leapYear_def .
qed

lemma temp_sdiv:
  fixes x :: int
  assumes "0 \<le> x"
  shows "((x sdiv 100 + 1) * 3) sdiv 4 = x div 100 - x div 400"
proof -
  have "0 \<le> x div 100" using assms by (simp add: pos_imp_zdiv_nonneg_iff)
  then have n: "0 \<le> (x div 100 + 1) * 3" by simp
  have "x div 100 div 4 = x div (100 * 4)" by (simp add: zdiv_zmult2_eq)
  then have "(x div 100 + 1) * 3 div 4 = x div 100 - x div 400"
    by (simp only: temp_eq)
  then show ?thesis
    using assms sdiv_nonneg [OF n, of 4] by (simp add: sdiv_nonneg)
qed

lemma calcDaynr_pos:
  assumes "1 \<le> y" and "1 \<le> m"
  shows "calcDaynr_exact y m d =
     365 * y + 31 * (m - 1) + d +
     (if m \<le> 2 then leapDays (y - 1) else leapDays y - (m * 4 + 23) div 10)"
proof -
  have nz: "\<not> (y = 0 \<and> m = 0)" using assms by simp
  have y1: "0 \<le> y - 1" and y0: "0 \<le> y" using assms by simp_all
  have m0: "0 \<le> m * 4 + 23" using assms by simp
  show ?thesis
  proof (cases "m \<le> 2")
    case True
    then have "calcDaynr_exact y m d = 365 * y + 31 * (m - 1) + d + (y - 1) sdiv 4
        - (((y - 1) sdiv 100 + 1) * 3) sdiv 4"
      unfolding calcDaynr_exact_def Let_def using nz by (simp only: if_True if_False)
    also have "\<dots> = 365 * y + 31 * (m - 1) + d + (y - 1) div 4
        - ((y - 1) div 100 - (y - 1) div 400)"
      by (simp only: temp_sdiv [OF y1] sdiv_nonneg [OF y1, of 4, simplified])
    finally show ?thesis using True by (simp add: leapDays_def)
  next
    case False
    then have "calcDaynr_exact y m d = 365 * y + 31 * (m - 1) + d - (m * 4 + 23) sdiv 10 + y sdiv 4
        - ((y sdiv 100 + 1) * 3) sdiv 4"
      unfolding calcDaynr_exact_def Let_def using nz by (simp only: if_True if_False)
    also have "\<dots> = 365 * y + 31 * (m - 1) + d - (m * 4 + 23) div 10 + y div 4
        - (y div 100 - y div 400)"
      by (simp only: temp_sdiv [OF y0] sdiv_nonneg [OF y0, of 4, simplified]
          sdiv_nonneg [OF m0, of 10, simplified])
    finally show ?thesis using False by (simp add: leapDays_def)
  qed
qed


lemma month_cases:
  assumes "1 \<le> m" and "m \<le> 12"
  shows "(m::int) = 1 \<or> m = 2 \<or> m = 3 \<or> m = 4 \<or> m = 5 \<or> m = 6 \<or> m = 7 \<or> m = 8 \<or>
         m = 9 \<or> m = 10 \<or> m = 11 \<or> m = 12"
proof -
  have "[1..12::int] = [1, 2, 3, 4, 5, 6, 7, 8, 9, 10, 11, 12]" by code_simp
  moreover have "m \<in> set [1..12]" using assms by simp
  ultimately have "m \<in> set [1, 2, 3, 4, 5, 6, 7, 8, 9, 10, 11, 12 :: int]" by simp
  then show ?thesis by simp
qed

lemma calcDaynr_exact_closed:
  assumes "1 \<le> y" and "1 \<le> m" and "m \<le> 12"
  shows "calcDaynr_exact y m d = 365 + daysBeforeYear y + daysBeforeMonth y m + d"
proof -
  define L where "L = leapDays (y - 1)"
  have s: "leapDays y = L + (if leapYear y then 1 else 0)"
    unfolding L_def by (rule leapDays_step)
  have e: "calcDaynr_exact y m d = 365 * y + 31 * (m - 1) + d +
     (if m \<le> 2 then L else L + (if leapYear y then 1 else 0) - (m * 4 + 23) div 10)"
    using calcDaynr_pos [OF assms(1,2), of d] by (simp only: s L_def)
  have f: "daysBeforeYear y = 365 * (y - 1) + L"
    by (simp only: daysBeforeYear_def L_def)
  from month_cases [OF assms(2,3)] show ?thesis
    unfolding e f daysBeforeMonth_def
    by (elim disjE) simp_all
qed

lemma calcDaynr_closed:
  assumes "1 \<le> y" and "y \<le> 2 ^ 54 + 1" and "1 \<le> m" and "m \<le> 12"
    and "0 \<le> d" and "d \<le> 255"
  shows "calcDaynr y m d = 365 + daysBeforeYear y + daysBeforeMonth y m + d"
proof -
  have "calcDaynr y m d = calcDaynr_exact y m d"
    using assms by (intro calcDaynr_no_wrap) simp_all
  then show ?thesis
    using calcDaynr_exact_closed [OF assms(1,3,4), of d] by simp
qed

lemma daysInMonth_le: "daysInMonth y m \<le> 31"
  by (simp add: daysInMonth_def)

lemma daysBeforeYear_Suc:
  "daysBeforeYear (y + 1) = daysBeforeYear y + 365 + (if leapYear y then 1 else 0)"
  using leapDays_step [of y] by (simp add: daysBeforeYear_def)

lemma daysBeforeMonth_Suc:
  assumes "1 \<le> m" and "m < 12"
  shows "daysBeforeMonth y (m + 1) = daysBeforeMonth y m + daysInMonth y m"
proof -
  have "m \<le> 12" using assms by simp
  from month_cases [OF assms(1) this] assms(2) show ?thesis
    unfolding daysBeforeMonth_def daysInMonth_def
    by (elim disjE) simp_all
qed

lemma daysBeforeMonth_Dec:
  "daysBeforeMonth y 12 + 31 = 365 + (if leapYear y then 1 else 0)"
  by (simp add: daysBeforeMonth_def)




section \<open>Time differences\<close>

text \<open>
  C2 (as amended). Swapping the operands of \<open>calcTimeDiff\<close> with the sign kept at +1
  gives the same seconds and microseconds; the \<open>neg\<close> flag is inverted when the
  difference is not zero, and is false both ways when it is zero.
\<close>

theorem calcTimeDiff_swap:
  "fst (calcTimeDiff t2 t1 1) = fst (calcTimeDiff t1 t2 1) \<and>
   fst (snd (calcTimeDiff t2 t1 1)) = fst (snd (calcTimeDiff t1 t2 1)) \<and>
   snd (snd (calcTimeDiff t2 t1 1)) =
     (if fst (calcTimeDiff t1 t2 1) = 0 \<and> fst (snd (calcTimeDiff t1 t2 1)) = 0
      then False else \<not> snd (snd (calcTimeDiff t1 t2 1))) \<and>
   ((fst (calcTimeDiff t1 t2 1) = 0 \<and> fst (snd (calcTimeDiff t1 t2 1)) = 0)
      = (calcTimeDiff_total t1 t2 1 = 0))"
proof -
  have neg: "calcTimeDiff_total t2 t1 1 = - calcTimeDiff_total t1 t2 1"
    by (simp add: calcTimeDiff_total_def Let_def algebra_simps)
  have z: "(\<bar>x\<bar> sdiv 1000000 = 0 \<and> \<bar>x\<bar> smod 1000000 = 0) = (x = 0)" for x :: int
  proof -
    have "\<bar>x\<bar> sdiv 1000000 * 1000000 + \<bar>x\<bar> smod 1000000 = \<bar>x\<bar>"
      by (rule sdiv_mult_smod_eq)
    then show ?thesis by auto
  qed
  have a: "(if x < 0 then - x else x) = \<bar>x\<bar>" for x :: int by simp
  show ?thesis
    using z [of "calcTimeDiff_total t1 t2 1"]
    by (auto simp add: calcTimeDiff_def Let_def neg a simp del: abs_if)
qed

text \<open>C2 as stated fails: with the operands swapped and the sign \<open>-1\<close> the two values
  are added, so the seconds differ (here both operands are 2000-01-01 00:00:00).\<close>

theorem calcTimeDiff_swap_minus_sign_differs:
  "calcTimeDiff (newMysqlTime 2000 1 1 0 0 0 0) (newMysqlTime 2000 1 1 0 0 0 0) 1
     = (0, 0, False) \<and>
   calcTimeDiff (newMysqlTime 2000 1 1 0 0 0 0) (newMysqlTime 2000 1 1 0 0 0 0) (- 1)
     = (126227808000, 0, False)"
  by code_simp

section \<open>Interval differences\<close>

text \<open>
  C10. For every pair of time values and every interval type that is not one of the
  nine supported names, \<open>timestampDiff\<close> returns 0.
\<close>

theorem timestampDiff_unsupported:
  "u \<notin> {intervalYEAR, intervalQUARTER, intervalMONTH, intervalWEEK, intervalDAY,
         intervalHOUR, intervalMINUTE, intervalSECOND, intervalMICROSECOND}
   \<Longrightarrow> timestampDiff u t1 t2 = 0"
  by (simp add: timestampDiff_def split: prod.splits)

theorem timestampDiff_unsupported_witness:
  "timestampDiff ''year'' (newMysqlTime 2001 2 28 0 0 0 0) (newMysqlTime 2003 3 1 0 0 0 5) = 0"
  using timestampDiff_unsupported
    [of "''year''" "newMysqlTime 2001 2 28 0 0 0 0" "newMysqlTime 2003 3 1 0 0 0 5"]
  by (simp add: interval_defs)

section \<open>Chronological order and the sign of a difference\<close>

text \<open>On real calendar dates the day number grows with the date.\<close>

lemma daysBeforeYear_mono:
  assumes "y + 1 \<le> y'"
  shows "daysBeforeYear (y + 1) \<le> daysBeforeYear y'"
  using assms
proof (induction y' rule: int_ge_induct)
  case base
  show ?case by simp
next
  case (step i)
  have "daysBeforeYear i \<le> daysBeforeYear (i + 1)"
    by (simp add: daysBeforeYear_Suc)
  with step show ?case by simp
qed

lemma daysInMonth_pos: "28 \<le> daysInMonth y m"
  by (simp add: daysInMonth_def)

lemma daysBeforeMonth_nonneg: "0 \<le> daysBeforeMonth y m"
  by (simp add: daysBeforeMonth_def)

lemma daysBeforeMonth_mono:
  assumes "1 \<le> m" and "m + 1 \<le> m'" and "m' \<le> 12"
  shows "daysBeforeMonth y m + daysInMonth y m \<le> daysBeforeMonth y m'"
proof -
  have "m' \<le> 12 \<longrightarrow> daysBeforeMonth y m + daysInMonth y m \<le> daysBeforeMonth y m'"
    using assms(2)
  proof (induction m' rule: int_ge_induct)
    case base
    show ?case using assms(1) by (simp add: daysBeforeMonth_Suc)
  next
    case (step i)
    show ?case
    proof
      assume i: "i + 1 \<le> 12"
      have "daysBeforeMonth y (i + 1) = daysBeforeMonth y i + daysInMonth y i"
        using assms(1) step.hyps i by (intro daysBeforeMonth_Suc) simp_all
      then show "daysBeforeMonth y m + daysInMonth y m \<le> daysBeforeMonth y (i + 1)"
        using step.IH i daysInMonth_pos [of y i] by simp
    qed
  qed
  then show ?thesis using assms(3) by simp
qed

lemma dayOfYear_le:
  assumes "1 \<le> m" and "m \<le> 12"
  shows "daysBeforeMonth y m + daysInMonth y m \<le> 365 + (if leapYear y then 1 else 0)"
proof (cases "m = 12")
  case True
  then show ?thesis using daysBeforeMonth_Dec [of y] by (simp add: daysInMonth_def)
next
  case False
  then have "daysBeforeMonth y m + daysInMonth y m \<le> daysBeforeMonth y 12"
    using assms by (intro daysBeforeMonth_mono) simp_all
  then show ?thesis using daysBeforeMonth_Dec [of y] by simp
qed

lemma calcDaynr_mono:
  assumes a: "validDate y m d" and b: "validDate y' m' d'"
    and ya: "y \<le> 2 ^ 54" and yb: "y' \<le> 2 ^ 54"
    and lt: "y < y' \<or> (y = y' \<and> (m < m' \<or> (m = m' \<and> d < d')))"
  shows "calcDaynr y m d < calcDaynr y' m' d'"
proof -
  have va: "1 \<le> y" "1 \<le> m" "m \<le> 12" "1 \<le> d" "d \<le> daysInMonth y m"
    using a by (simp_all add: validDate_def)
  have vb: "1 \<le> y'" "1 \<le> m'" "m' \<le> 12" "1 \<le> d'" "d' \<le> daysInMonth y' m'"
    using b by (simp_all add: validDate_def)
  have da: "d \<le> 255" using va(5) daysInMonth_le [of y m] by linarith
  have db: "d' \<le> 255" using vb(5) daysInMonth_le [of y' m'] by linarith
  have ca: "calcDaynr y m d = 365 + daysBeforeYear y + daysBeforeMonth y m + d"
    using va ya da by (intro calcDaynr_closed) simp_all
  have cb: "calcDaynr y' m' d' = 365 + daysBeforeYear y' + daysBeforeMonth y' m' + d'"
    using vb yb db by (intro calcDaynr_closed) simp_all
  consider (year) "y < y'" | (month) "y = y'" "m < m'" | (day) "y = y'" "m = m'" "d < d'"
    using lt by blast
  then show ?thesis
  proof cases
    case year
    have "daysBeforeMonth y m + d \<le> 365 + (if leapYear y then 1 else 0)"
      using dayOfYear_le [OF va(2,3), of y] va(5) by simp
    then have "daysBeforeYear y + daysBeforeMonth y m + d \<le> daysBeforeYear (y + 1)"
      by (simp add: daysBeforeYear_Suc)
    moreover have "daysBeforeYear (y + 1) \<le> daysBeforeYear y'"
      using year by (intro daysBeforeYear_mono) simp
    ultimately show ?thesis
      using daysBeforeMonth_nonneg [of y' m'] vb(4) unfolding ca cb by linarith
  next
    case month
    have "daysBeforeMonth y m + daysInMonth y m \<le> daysBeforeMonth y m'"
      using va vb month by (intro daysBeforeMonth_mono) simp_all
    then show ?thesis
      using va(5) vb(4) month unfolding ca cb by simp
  next
    case day
    then show ?thesis unfolding ca cb by simp
  qed
qed


lemma lex_step:
  fixes x x' r r' B :: int
  assumes "0 \<le> r" and "r < B" and "0 \<le> r'" and "r' < B"
  shows "(x * B + r < x' * B + r') = (x < x' \<or> (x = x' \<and> r < r'))"
    and "(x * B + r = x' * B + r') = (x = x' \<and> r = r')"
proof -
  have B: "0 \<le> B" using assms by linarith
  have up: "a * B + p < c * B + q" if "a < c" "p < B" "0 \<le> q" for a c p q :: int
  proof -
    from that have "a + 1 \<le> c" by simp
    then have "(a + 1) * B \<le> c * B" using B by (rule mult_right_mono)
    then have "a * B + B \<le> c * B" by (simp add: algebra_simps)
    then show ?thesis using that by linarith
  qed
  consider (lt) "x < x'" | (eq) "x = x'" | (gt) "x' < x" by linarith
  then have "((x * B + r < x' * B + r') = (x < x' \<or> (x = x' \<and> r < r'))) \<and>
     ((x * B + r = x' * B + r') = (x = x' \<and> r = r'))"
  proof cases
    case lt
    then have "x * B + r < x' * B + r'" using assms by (intro up)
    then show ?thesis using lt by simp
  next
    case eq
    then show ?thesis by simp
  next
    case gt
    then have "x' * B + r' < x * B + r" using assms by (intro up)
    then show ?thesis using gt by simp
  qed
  then show "(x * B + r < x' * B + r') = (x < x' \<or> (x = x' \<and> r < r'))"
    and "(x * B + r = x' * B + r') = (x = x' \<and> r = r')"
    by blast+
qed

lemma field_nonneg:
  "0 \<le> Year t" "0 \<le> Month t" "0 \<le> Day t" "0 \<le> Hour t" "0 \<le> Minute t" "0 \<le> Second t"
  "0 \<le> Microsecond t"
  by (simp_all add: Year_def Month_def Day_def Hour_def Minute_def Second_def Microsecond_def)

lemma field_upper:
  "Year t < 65536" "Month t < 256" "Day t < 256" "Hour t < 256" "Minute t < 256"
  "Second t < 256" "Microsecond t < 4294967296"
  using uint_lt2p [of "year t"] uint_lt2p [of "month t"] uint_lt2p [of "day t"]
    uint_lt2p [of "hour t"] uint_lt2p [of "minute t"] uint_lt2p [of "second t"]
    uint_lt2p [of "microsecond t"]
  by (simp_all add: Year_def Month_def Day_def Hour_def Minute_def Second_def Microsecond_def)

lemma calcTimeDiff_total_instant:
  "calcTimeDiff_total t1 t2 1 = instant t1 - instant t2"
  "calcTimeDiff_total t1 t2 (- 1) = instant t1 + instant t2"
  by (simp_all add: calcTimeDiff_total_def Let_def instant_def clockSeconds_def
      secondsIn24Hour_def algebra_simps)

lemma minsec_range:
  assumes "validTime t"
  shows "0 \<le> Minute t * 60 + Second t" and "Minute t * 60 + Second t < 3600"
  using assms field_nonneg [of t] unfolding validTime_def by linarith+

lemma clockSeconds_range:
  assumes "validTime t"
  shows "0 \<le> clockSeconds t" and "clockSeconds t < 86400"
  using assms field_nonneg [of t] unfolding validTime_def clockSeconds_def by linarith+

lemma clockSeconds_order:
  assumes a: "validTime a" and b: "validTime b"
  shows "(clockSeconds b < clockSeconds a) =
      (Hour b < Hour a \<or> (Hour b = Hour a \<and>
        (Minute b < Minute a \<or> (Minute b = Minute a \<and> Second b < Second a))))"
    and "(clockSeconds b = clockSeconds a) =
      (Hour b = Hour a \<and> Minute b = Minute a \<and> Second b = Second a)"
proof -
  have sa: "0 \<le> Second a" "Second a < 60" and sb: "0 \<le> Second b" "Second b < 60"
    using a b field_nonneg by (simp_all add: validTime_def)
  have m: "(Minute b * 60 + Second b < Minute a * 60 + Second a) =
      (Minute b < Minute a \<or> (Minute b = Minute a \<and> Second b < Second a))"
    "(Minute b * 60 + Second b = Minute a * 60 + Second a) =
      (Minute b = Minute a \<and> Second b = Second a)"
    by (rule lex_step [OF sb sa])+
  have h: "(clockSeconds b < clockSeconds a) =
      (Hour b < Hour a \<or> (Hour b = Hour a \<and>
         Minute b * 60 + Second b < Minute a * 60 + Second a))"
    "(clockSeconds b = clockSeconds a) =
      (Hour b = Hour a \<and> Minute b * 60 + Second b = Minute a * 60 + Second a)"
    unfolding clockSeconds_def
    by (rule lex_step [OF minsec_range [OF b] minsec_range [OF a]])+
  show "(clockSeconds b < clockSeconds a) =
      (Hour b < Hour a \<or> (Hour b = Hour a \<and>
        (Minute b < Minute a \<or> (Minute b = Minute a \<and> Second b < Second a))))"
    unfolding h m ..
  show "(clockSeconds b = clockSeconds a) =
      (Hour b = Hour a \<and> Minute b = Minute a \<and> Second b = Second a)"
    unfolding h m ..
qed

lemma date_order_asym:
  fixes y m d y' m' d' :: int
  assumes "y < y' \<or> (y = y' \<and> (m < m' \<or> (m = m' \<and> d < d')))"
  shows "\<not> (y' < y \<or> (y' = y \<and> (m' < m \<or> (m' = m \<and> d' < d))))"
    and "\<not> (y' = y \<and> m' = m \<and> d' = d)"
  using assms by linarith+

lemma daynr_order:
  assumes a: "validTime a" and b: "validTime b"
  shows "(calcDaynr (Year b) (Month b) (Day b) < calcDaynr (Year a) (Month a) (Day a)) =
         (Year b < Year a \<or> (Year b = Year a \<and>
           (Month b < Month a \<or> (Month b = Month a \<and> Day b < Day a))))"
    and "(calcDaynr (Year b) (Month b) (Day b) = calcDaynr (Year a) (Month a) (Day a)) =
         (Year b = Year a \<and> Month b = Month a \<and> Day b = Day a)"
proof -
  have va: "validDate (Year a) (Month a) (Day a)" and vb: "validDate (Year b) (Month b) (Day b)"
    using a b by (simp_all add: validTime_def)
  define na where "na = calcDaynr (Year a) (Month a) (Day a)"
  define nb where "nb = calcDaynr (Year b) (Month b) (Day b)"
  define lt_ba where "lt_ba = (Year b < Year a \<or> (Year b = Year a \<and>
           (Month b < Month a \<or> (Month b = Month a \<and> Day b < Day a))))"
  define lt_ab where "lt_ab = (Year a < Year b \<or> (Year a = Year b \<and>
           (Month a < Month b \<or> (Month a = Month b \<and> Day a < Day b))))"
  define eq_ba where "eq_ba = (Year b = Year a \<and> Month b = Month a \<and> Day b = Day a)"
  have tri: "lt_ba \<or> eq_ba \<or> lt_ab"
    unfolding lt_ba_def eq_ba_def lt_ab_def by linarith
  have x1: "lt_ba \<Longrightarrow> \<not> eq_ba" and x2: "lt_ab \<Longrightarrow> \<not> eq_ba" and x3: "lt_ba \<Longrightarrow> \<not> lt_ab"
    unfolding lt_ba_def eq_ba_def lt_ab_def by linarith+
  have ya: "Year a \<le> 2 ^ 54" and yb: "Year b \<le> 2 ^ 54"
    using field_upper(1) [of a] field_upper(1) [of b] by simp_all
  have m1: "lt_ba \<Longrightarrow> nb < na"
    unfolding lt_ba_def nb_def na_def by (rule calcDaynr_mono [OF vb va yb ya])
  have m2: "lt_ab \<Longrightarrow> na < nb"
    unfolding lt_ab_def nb_def na_def by (rule calcDaynr_mono [OF va vb ya yb])
  have m3: "eq_ba \<Longrightarrow> nb = na"
    unfolding eq_ba_def nb_def na_def by simp
  have "(nb < na) = lt_ba" and "(nb = na) = eq_ba"
    using tri x1 x2 x3 m1 m2 m3 by (cases lt_ba; cases eq_ba; cases lt_ab; simp)+
  then show "(calcDaynr (Year b) (Month b) (Day b) < calcDaynr (Year a) (Month a) (Day a)) =
         (Year b < Year a \<or> (Year b = Year a \<and>
           (Month b < Month a \<or> (Month b = Month a \<and> Day b < Day a))))"
    and "(calcDaynr (Year b) (Month b) (Day b) = calcDaynr (Year a) (Month a) (Day a)) =
         (Year b = Year a \<and> Month b = Month a \<and> Day b = Day a)"
    unfolding nb_def na_def lt_ba_def eq_ba_def by blast+
qed

lemma instant_order:
  assumes a: "validTime a" and b: "validTime b"
  shows "(instant b < instant a) = earlier b a"
proof -
  have ua: "0 \<le> Microsecond a" "Microsecond a < 1000000"
    and ub: "0 \<le> Microsecond b" "Microsecond b < 1000000"
    using a b field_nonneg by (simp_all add: validTime_def)
  have i: "(instant b < instant a) =
     (calcDaynr (Year b) (Month b) (Day b) * 86400 + clockSeconds b
        < calcDaynr (Year a) (Month a) (Day a) * 86400 + clockSeconds a \<or>
      (calcDaynr (Year b) (Month b) (Day b) * 86400 + clockSeconds b
        = calcDaynr (Year a) (Month a) (Day a) * 86400 + clockSeconds a \<and>
       Microsecond b < Microsecond a))"
    unfolding instant_def by (rule lex_step [OF ub ua])
  have s: "(calcDaynr (Year b) (Month b) (Day b) * 86400 + clockSeconds b
        < calcDaynr (Year a) (Month a) (Day a) * 86400 + clockSeconds a) =
     (calcDaynr (Year b) (Month b) (Day b) < calcDaynr (Year a) (Month a) (Day a) \<or>
      (calcDaynr (Year b) (Month b) (Day b) = calcDaynr (Year a) (Month a) (Day a) \<and>
       clockSeconds b < clockSeconds a))"
    "(calcDaynr (Year b) (Month b) (Day b) * 86400 + clockSeconds b
        = calcDaynr (Year a) (Month a) (Day a) * 86400 + clockSeconds a) =
     (calcDaynr (Year b) (Month b) (Day b) = calcDaynr (Year a) (Month a) (Day a) \<and>
       clockSeconds b = clockSeconds a)"
    by (rule lex_step [OF clockSeconds_range [OF b] clockSeconds_range [OF a]])+
  show ?thesis
    unfolding i s daynr_order [OF a b] clockSeconds_order [OF a b] earlier_def by blast
qed

text \<open>The unsigned month count agrees with the count on integers when every operand is
  non-negative and fits 64 bits, and on two real date-times, the earlier one first, it
  is a small non-negative number.\<close>

lemma uint64_of_int:
  assumes "0 \<le> a" and "a < 2 ^ 64"
  shows "uint (word_of_int a :: uint) = a"
  using assms by (simp add: uint_word_of_int take_bit_int_eq_self)

lemma word_of_int_less_iff:
  assumes "0 \<le> a" and "a < 2 ^ 64" and "0 \<le> b" and "b < 2 ^ 64"
  shows "((word_of_int a :: uint) < word_of_int b) = (a < b)"
  unfolding word_less_alt uint64_of_int [OF assms(1,2)] uint64_of_int [OF assms(3,4)] ..

lemma word_of_int_eq_iff:
  assumes "0 \<le> a" and "a < 2 ^ 64" and "0 \<le> b" and "b < 2 ^ 64"
  shows "((word_of_int a :: uint) = word_of_int b) = (a = b)"
proof
  assume "(word_of_int a :: uint) = word_of_int b"
  then have "uint (word_of_int a :: uint) = uint (word_of_int b :: uint)" by simp
  then show "a = b"
    unfolding uint64_of_int [OF assms(1,2)] uint64_of_int [OF assms(3,4)] .
next
  assume "a = b"
  then show "(word_of_int a :: uint) = word_of_int b" by simp
qed

lemma timestampDiff_months_of_int:
  assumes "0 \<le> mb" "mb < 2 ^ 64" "0 \<le> me" "me < 2 ^ 64"
    and "0 \<le> db" "db < 2 ^ 64" "0 \<le> de" "de < 2 ^ 64"
    and "0 \<le> sb" "sb < 2 ^ 64" "0 \<le> se" "se < 2 ^ 64"
    and "0 \<le> ub" "ub < 2 ^ 64" "0 \<le> ue" "ue < 2 ^ 64"
  shows "timestampDiff_months (word_of_int yb) (word_of_int ye) (word_of_int mb) (word_of_int me)
           (word_of_int db) (word_of_int de) (word_of_int sb) (word_of_int se)
           (word_of_int ub) (word_of_int ue)
         = word_of_int (monthsBetween yb ye mb me db de sb se ub ue)"
proof -
  have c: "((word_of_int me :: uint) < word_of_int mb) = (me < mb)"
    "((word_of_int me :: uint) = word_of_int mb) = (me = mb)"
    "((word_of_int de :: uint) < word_of_int db) = (de < db)"
    "((word_of_int de :: uint) = word_of_int db) = (de = db)"
    "((word_of_int se :: uint) < word_of_int sb) = (se < sb)"
    "((word_of_int se :: uint) = word_of_int sb) = (se = sb)"
    "((word_of_int ue :: uint) < word_of_int ub) = (ue < ub)"
    using assms by (simp_all only: word_of_int_less_iff word_of_int_eq_iff)
  show ?thesis
    unfolding timestampDiff_months_def monthsBetween_def Let_def c
    by simp
qed


lemma monthsBetween_range:
  assumes m: "1 \<le> mb" "mb \<le> 12" "1 \<le> me" "me \<le> 12"
    and le: "yb < ye \<or> (yb = ye \<and> (mb < me \<or> (mb = me \<and> (db < de \<or> (db = de \<and>
               (sb < se \<or> (sb = se \<and> ub \<le> ue)))))))"
  shows "0 \<le> monthsBetween yb ye mb me db de sb se ub ue"
    and "monthsBetween yb ye mb me db de sb se ub ue \<le> 12 * (ye - yb) + 11"
proof -
  define borrow where "borrow = (me < mb \<or> (me = mb \<and> de < db))"
  define sub where "sub = (de < db \<or> (de = db \<and> (se < sb \<or> (se = sb \<and> ue < ub))))"
  have e: "monthsBetween yb ye mb me db de sb se ub ue =
      (if borrow then 12 * (ye - yb - 1) + (12 - (mb - me)) else 12 * (ye - yb) + (me - mb))
      - (if sub then 1 else 0)"
    unfolding monthsBetween_def Let_def borrow_def sub_def by auto
  have y: "yb \<le> ye" using le by linarith
  have b1: "borrow \<Longrightarrow> yb < ye"
    unfolding borrow_def using le by linarith
  have b2: "\<not> borrow \<Longrightarrow> mb \<le> me"
    unfolding borrow_def by linarith
  have s1: "sub \<Longrightarrow> \<not> borrow \<Longrightarrow> yb < ye \<or> mb < me"
    unfolding borrow_def sub_def using le by linarith
  show "0 \<le> monthsBetween yb ye mb me db de sb se ub ue"
    unfolding e using m y b1 b2 s1 by (cases borrow; cases sub; simp) linarith+
  show "monthsBetween yb ye mb me db de sb se ub ue \<le> 12 * (ye - yb) + 11"
    unfolding e using m y b1 b2 by (cases borrow; cases sub; simp)
qed

lemma sint64_of_int:
  assumes "- (2 ^ 63) \<le> a" and "a < 2 ^ 63"
  shows "sint (word_of_int a :: uint) = a"
  using assms by (simp add: sint_sbintrunc' signed_take_bit_int_eq_self)

lemma sdiv_ge0: "0 \<le> a \<Longrightarrow> 0 < b \<Longrightarrow> 0 \<le> (a::int) sdiv b"
  by (simp add: sdiv_nonneg pos_imp_zdiv_nonneg_iff)

lemma calcTimeDiff_instant:
  "calcTimeDiff t2 t1 1 =
     (\<bar>instant t2 - instant t1\<bar> sdiv 1000000, \<bar>instant t2 - instant t1\<bar> smod 1000000,
      instant t2 < instant t1)"
proof -
  have a: "(if x < 0 then - x else x) = \<bar>x\<bar>" for x :: int by simp
  show ?thesis
    unfolding calcTimeDiff_def Let_def calcTimeDiff_total_instant a by simp
qed

lemma instant_le_fields:
  assumes a: "validTime a" and b: "validTime b" and le: "instant a \<le> instant b"
  shows "Year a < Year b \<or> (Year a = Year b \<and> (Month a < Month b \<or> (Month a = Month b \<and>
          (Day a < Day b \<or> (Day a = Day b \<and> (clockSeconds a < clockSeconds b \<or>
            (clockSeconds a = clockSeconds b \<and> Microsecond a \<le> Microsecond b)))))))"
proof -
  have ua: "0 \<le> Microsecond a" "Microsecond a < 1000000"
    and ub: "0 \<le> Microsecond b" "Microsecond b < 1000000"
    using a b field_nonneg by (simp_all add: validTime_def)
  define na where "na = calcDaynr (Year a) (Month a) (Day a)"
  define nb where "nb = calcDaynr (Year b) (Month b) (Day b)"
  have i: "(instant b < instant a) =
     (nb * 86400 + clockSeconds b < na * 86400 + clockSeconds a \<or>
      (nb * 86400 + clockSeconds b = na * 86400 + clockSeconds a \<and>
       Microsecond b < Microsecond a))"
    unfolding instant_def na_def nb_def by (rule lex_step [OF ub ua])
  have s: "(nb * 86400 + clockSeconds b < na * 86400 + clockSeconds a) =
     (nb < na \<or> (nb = na \<and> clockSeconds b < clockSeconds a))"
    "(nb * 86400 + clockSeconds b = na * 86400 + clockSeconds a) =
     (nb = na \<and> clockSeconds b = clockSeconds a)"
    by (rule lex_step [OF clockSeconds_range [OF b] clockSeconds_range [OF a]])+
  have d: "(nb < na) = (Year b < Year a \<or> (Year b = Year a \<and>
           (Month b < Month a \<or> (Month b = Month a \<and> Day b < Day a))))"
    "(nb = na) = (Year b = Year a \<and> Month b = Month a \<and> Day b = Day a)"
    unfolding na_def nb_def by (rule daynr_order [OF a b])+
  have "\<not> instant b < instant a" using le by simp
  then show ?thesis unfolding i s d by linarith
qed

lemma months_valid:
  assumes a: "validTime a" and b: "validTime b" and le: "instant a \<le> instant b"
  shows "\<exists>M. 0 \<le> M \<and> M < 2 ^ 31 \<and>
     timestampDiff_months
        (word_of_int (Year a)) (word_of_int (Year b))
        (word_of_int (Month a)) (word_of_int (Month b))
        (word_of_int (Day a)) (word_of_int (Day b))
        (word_of_int (Hour a * 3600 + Minute a * 60 + Second a))
        (word_of_int (Hour b * 3600 + Minute b * 60 + Second b))
        (word_of_int (Microsecond a)) (word_of_int (Microsecond b)) = word_of_int M"
proof -
  have cs: "Hour t * 3600 + Minute t * 60 + Second t = clockSeconds t" for t
    by (simp add: clockSeconds_def)
  define M where "M = monthsBetween (Year a) (Year b) (Month a) (Month b) (Day a) (Day b)
      (clockSeconds a) (clockSeconds b) (Microsecond a) (Microsecond b)"
  have ma: "1 \<le> Month a" "Month a \<le> 12" and mb: "1 \<le> Month b" "Month b \<le> 12"
    using a b by (simp_all add: validTime_def validDate_def)
  have r: "0 \<le> M" "M \<le> 12 * (Year b - Year a) + 11"
    unfolding M_def
    by (rule monthsBetween_range [OF ma mb instant_le_fields [OF a b le]])+
  have "M < 2 ^ 31"
    using r(2) field_upper(1) [of b] field_nonneg(1) [of a] by simp
  moreover have "timestampDiff_months
        (word_of_int (Year a)) (word_of_int (Year b))
        (word_of_int (Month a)) (word_of_int (Month b))
        (word_of_int (Day a)) (word_of_int (Day b))
        (word_of_int (clockSeconds a)) (word_of_int (clockSeconds b))
        (word_of_int (Microsecond a)) (word_of_int (Microsecond b)) = word_of_int M"
    unfolding M_def
    using field_nonneg [of a] field_nonneg [of b] field_upper [of a] field_upper [of b]
      clockSeconds_range [OF a] clockSeconds_range [OF b]
    by (intro timestampDiff_months_of_int) simp_all
  ultimately show ?thesis using r(1) unfolding cs by blast
qed

text \<open>The result of \<open>timestampDiff\<close> for the units counted from the seconds, on every
  pair of time values.\<close>

lemma timestampDiff_fine:
  "timestampDiff intervalWEEK t1 t2 =
     \<bar>instant t2 - instant t1\<bar> sdiv 1000000 sdiv 86400 sdiv 7 *
       (if instant t2 < instant t1 then - 1 else 1)"
  "timestampDiff intervalDAY t1 t2 =
     \<bar>instant t2 - instant t1\<bar> sdiv 1000000 sdiv 86400 *
       (if instant t2 < instant t1 then - 1 else 1)"
  "timestampDiff intervalHOUR t1 t2 =
     \<bar>instant t2 - instant t1\<bar> sdiv 1000000 sdiv 3600 *
       (if instant t2 < instant t1 then - 1 else 1)"
  "timestampDiff intervalMINUTE t1 t2 =
     \<bar>instant t2 - instant t1\<bar> sdiv 1000000 sdiv 60 *
       (if instant t2 < instant t1 then - 1 else 1)"
  "timestampDiff intervalSECOND t1 t2 =
     \<bar>instant t2 - instant t1\<bar> sdiv 1000000 *
       (if instant t2 < instant t1 then - 1 else 1)"
  "timestampDiff intervalMICROSECOND t1 t2 =
     \<bar>instant t2 - instant t1\<bar> * (if instant t2 < instant t1 then - 1 else 1)"
proof -
  define X where "X = \<bar>instant t2 - instant t1\<bar>"
  have c: "calcTimeDiff t2 t1 1 = (X sdiv 1000000, X smod 1000000, instant t2 < instant t1)"
    unfolding X_def by (rule calcTimeDiff_instant)
  have r: "X sdiv 1000000 * 1000000 + X smod 1000000 = X"
    by (rule sdiv_mult_smod_eq)
  show "timestampDiff intervalWEEK t1 t2 =
     \<bar>instant t2 - instant t1\<bar> sdiv 1000000 sdiv 86400 sdiv 7 *
       (if instant t2 < instant t1 then - 1 else 1)"
    unfolding X_def [symmetric] timestampDiff_def c
    by (simp add: interval_defs secondsIn24Hour_def)
  show "timestampDiff intervalDAY t1 t2 =
     \<bar>instant t2 - instant t1\<bar> sdiv 1000000 sdiv 86400 *
       (if instant t2 < instant t1 then - 1 else 1)"
    unfolding X_def [symmetric] timestampDiff_def c
    by (simp add: interval_defs secondsIn24Hour_def)
  show "timestampDiff intervalHOUR t1 t2 =
     \<bar>instant t2 - instant t1\<bar> sdiv 1000000 sdiv 3600 *
       (if instant t2 < instant t1 then - 1 else 1)"
    unfolding X_def [symmetric] timestampDiff_def c
    by (simp add: interval_defs secondsIn24Hour_def)
  show "timestampDiff intervalMINUTE t1 t2 =
     \<bar>instant t2 - instant t1\<bar> sdiv 1000000 sdiv 60 *
       (if instant t2 < instant t1 then - 1 else 1)"
    unfolding X_def [symmetric] timestampDiff_def c
    by (simp add: interval_defs secondsIn24Hour_def)
  show "timestampDiff intervalSECOND t1 t2 =
     \<bar>instant t2 - instant t1\<bar> sdiv 1000000 *
       (if instant t2 < instant t1 then - 1 else 1)"
    unfolding X_def [symmetric] timestampDiff_def c
    by (simp add: interval_defs secondsIn24Hour_def)
  show "timestampDiff intervalMICROSECOND t1 t2 =
     \<bar>instant t2 - instant t1\<bar> * (if instant t2 < instant t1 then - 1 else 1)"
    unfolding X_def [symmetric] timestampDiff_def c
    using r by (simp add: interval_defs secondsIn24Hour_def)
qed

lemma signed_quantity:
  fixes q :: int
  assumes "0 \<le> q"
  shows "if n then q * (if n then - 1 else 1) \<le> 0 else 0 \<le> q * (if n then - 1 else 1)"
  using assms by simp

lemma timestampDiff_fine_sign:
  assumes "u \<in> {intervalWEEK, intervalDAY, intervalHOUR, intervalMINUTE, intervalSECOND,
                intervalMICROSECOND}"
  shows "if instant t2 < instant t1 then timestampDiff u t1 t2 \<le> 0
         else 0 \<le> timestampDiff u t1 t2"
proof -
  define X where "X = \<bar>instant t2 - instant t1\<bar>"
  have x: "0 \<le> X" unfolding X_def by simp
  then have s: "0 \<le> X sdiv 1000000" by (simp add: sdiv_ge0)
  then have q: "0 \<le> X sdiv 1000000 sdiv 86400 sdiv 7" "0 \<le> X sdiv 1000000 sdiv 86400"
    "0 \<le> X sdiv 1000000 sdiv 3600" "0 \<le> X sdiv 1000000 sdiv 60"
    by (simp_all add: sdiv_ge0)
  from assms consider "u = intervalWEEK" | "u = intervalDAY" | "u = intervalHOUR"
    | "u = intervalMINUTE" | "u = intervalSECOND" | "u = intervalMICROSECOND"
    by blast
  then show ?thesis
  proof cases
    case 1
    show ?thesis unfolding 1 timestampDiff_fine X_def [symmetric]
      using q(1) by (rule signed_quantity)
  next
    case 2
    show ?thesis unfolding 2 timestampDiff_fine X_def [symmetric]
      using q(2) by (rule signed_quantity)
  next
    case 3
    show ?thesis unfolding 3 timestampDiff_fine X_def [symmetric]
      using q(3) by (rule signed_quantity)
  next
    case 4
    show ?thesis unfolding 4 timestampDiff_fine X_def [symmetric]
      using q(4) by (rule signed_quantity)
  next
    case 5
    show ?thesis unfolding 5 timestampDiff_fine X_def [symmetric]
      using s by (rule signed_quantity)
  next
    case 6
    show ?thesis unfolding 6 timestampDiff_fine X_def [symmetric]
      using x by (rule signed_quantity)
  qed
qed

text \<open>The result for the units counted in months, on real date-times.\<close>

lemma timestampDiff_coarse_later:
  assumes a: "validTime t1" and b: "validTime t2" and le: "\<not> instant t2 < instant t1"
  shows "\<exists>M. 0 \<le> M \<and> timestampDiff intervalYEAR t1 t2 = M sdiv 12 \<and>
             timestampDiff intervalQUARTER t1 t2 = M sdiv 3 \<and>
             timestampDiff intervalMONTH t1 t2 = M"
proof -
  have "instant t1 \<le> instant t2" using le by simp
  from months_valid [OF a b this] obtain M where
    M: "0 \<le> M" "M < 2 ^ 31" and
    eq: "timestampDiff_months
        (word_of_int (Year t1)) (word_of_int (Year t2))
        (word_of_int (Month t1)) (word_of_int (Month t2))
        (word_of_int (Day t1)) (word_of_int (Day t2))
        (word_of_int (Hour t1 * 3600 + Minute t1 * 60 + Second t1))
        (word_of_int (Hour t2 * 3600 + Minute t2 * 60 + Second t2))
        (word_of_int (Microsecond t1)) (word_of_int (Microsecond t2)) = word_of_int M"
    by blast
  have s: "sint (word_of_int M :: uint) = M"
    using M by (intro sint64_of_int) simp_all
  have "timestampDiff intervalYEAR t1 t2 = M sdiv 12"
    unfolding timestampDiff_def calcTimeDiff_instant using le
    by (simp add: interval_defs eq [simplified] s)
  moreover have "timestampDiff intervalQUARTER t1 t2 = M sdiv 3"
    unfolding timestampDiff_def calcTimeDiff_instant using le
    by (simp add: interval_defs eq [simplified] s)
  moreover have "timestampDiff intervalMONTH t1 t2 = M"
    unfolding timestampDiff_def calcTimeDiff_instant using le
    by (simp add: interval_defs eq [simplified] s)
  ultimately show ?thesis using M(1) by blast
qed

lemma timestampDiff_coarse_earlier:
  assumes a: "validTime t1" and b: "validTime t2" and lt: "instant t2 < instant t1"
  shows "\<exists>M. 0 \<le> M \<and> timestampDiff intervalYEAR t1 t2 = M sdiv 12 * - 1 \<and>
             timestampDiff intervalQUARTER t1 t2 = M sdiv 3 * - 1 \<and>
             timestampDiff intervalMONTH t1 t2 = - M"
proof -
  have "instant t2 \<le> instant t1" using lt by simp
  from months_valid [OF b a this] obtain M where
    M: "0 \<le> M" "M < 2 ^ 31" and
    eq: "timestampDiff_months
        (word_of_int (Year t2)) (word_of_int (Year t1))
        (word_of_int (Month t2)) (word_of_int (Month t1))
        (word_of_int (Day t2)) (word_of_int (Day t1))
        (word_of_int (Hour t2 * 3600 + Minute t2 * 60 + Second t2))
        (word_of_int (Hour t1 * 3600 + Minute t1 * 60 + Second t1))
        (word_of_int (Microsecond t2)) (word_of_int (Microsecond t1)) = word_of_int M"
    by blast
  have s: "sint (word_of_int M :: uint) = M"
    using M by (intro sint64_of_int) simp_all
  have "sint (word_of_int (- M) :: uint) = - M"
    using M by (intro sint64_of_int) simp_all
  then have n: "sint (- (word_of_int M :: uint)) = - M" by simp
  have "timestampDiff intervalYEAR t1 t2 = M sdiv 12 * - 1"
    unfolding timestampDiff_def calcTimeDiff_instant using lt
    by (simp add: interval_defs eq [simplified] s)
  moreover have "timestampDiff intervalQUARTER t1 t2 = M sdiv 3 * - 1"
    unfolding timestampDiff_def calcTimeDiff_instant using lt
    by (simp add: interval_defs eq [simplified] s)
  moreover have "timestampDiff intervalMONTH t1 t2 = - M"
    unfolding timestampDiff_def calcTimeDiff_instant using lt
    by (simp add: interval_defs eq [simplified] n)
  ultimately show ?thesis using M(1) by blast
qed

lemma timestampDiff_coarse_sign:
  assumes a: "validTime t1" and b: "validTime t2"
    and u: "u \<in> {intervalYEAR, intervalQUARTER, intervalMONTH}"
  shows "if instant t2 < instant t1 then timestampDiff u t1 t2 \<le> 0
         else 0 \<le> timestampDiff u t1 t2"
proof (cases "instant t2 < instant t1")
  case True
  from timestampDiff_coarse_earlier [OF a b True] obtain M where
    M: "0 \<le> M" "timestampDiff intervalYEAR t1 t2 = M sdiv 12 * - 1"
      "timestampDiff intervalQUARTER t1 t2 = M sdiv 3 * - 1"
      "timestampDiff intervalMONTH t1 t2 = - M"
    by blast
  have "0 \<le> M sdiv 12" "0 \<le> M sdiv 3" using M(1) by (simp_all add: sdiv_ge0)
  then show ?thesis using True u M by auto
next
  case False
  from timestampDiff_coarse_later [OF a b False] obtain M where
    M: "0 \<le> M" "timestampDiff intervalYEAR t1 t2 = M sdiv 12"
      "timestampDiff intervalQUARTER t1 t2 = M sdiv 3"
      "timestampDiff intervalMONTH t1 t2 = M"
    by blast
  have "0 \<le> M sdiv 12" "0 \<le> M sdiv 3" using M(1) by (simp_all add: sdiv_ge0)
  then show ?thesis using False u M by auto
qed

text \<open>
  C5 (as amended). \<open>timestampDiff\<close> calls \<open>calcTimeDiff (t2, t1, +1)\<close>, whose \<open>neg\<close>
  flag is set exactly when the instant of \<open>t2\<close> (day number, time of day,
  microseconds) is below that of \<open>t1\<close>. For WEEK, DAY, HOUR, MINUTE, SECOND and
  MICROSECOND and all time values, the result is at least 0 when \<open>neg\<close> is false and
  at most 0 when it is true. When \<open>t1\<close> and \<open>t2\<close> are real calendar date-times (year at
  least 1, a real month and day, wall-clock time fields), \<open>neg\<close> is set exactly when
  \<open>t2\<close> is earlier than \<open>t1\<close>, and for every one of the nine units the result is at
  most 0 when \<open>t2\<close> is earlier and at least 0 otherwise; in microseconds it is
  positive when \<open>t1\<close> is earlier and negative when \<open>t2\<close> is earlier.
\<close>

theorem timestampDiff_sign:
  "snd (snd (calcTimeDiff t2 t1 1)) = (instant t2 < instant t1) \<and>
   (u \<in> {intervalWEEK, intervalDAY, intervalHOUR, intervalMINUTE, intervalSECOND,
          intervalMICROSECOND} \<longrightarrow>
      (if instant t2 < instant t1 then timestampDiff u t1 t2 \<le> 0
       else 0 \<le> timestampDiff u t1 t2)) \<and>
   (validTime t1 \<and> validTime t2 \<longrightarrow>
      (instant t2 < instant t1) = earlier t2 t1 \<and>
      (u \<in> {intervalYEAR, intervalQUARTER, intervalMONTH, intervalWEEK, intervalDAY,
             intervalHOUR, intervalMINUTE, intervalSECOND, intervalMICROSECOND} \<longrightarrow>
         (if earlier t2 t1 then timestampDiff u t1 t2 \<le> 0
          else 0 \<le> timestampDiff u t1 t2)) \<and>
      (earlier t1 t2 \<longrightarrow> 0 < timestampDiff intervalMICROSECOND t1 t2) \<and>
      (earlier t2 t1 \<longrightarrow> timestampDiff intervalMICROSECOND t1 t2 < 0))"
proof (intro conjI impI)
  show "snd (snd (calcTimeDiff t2 t1 1)) = (instant t2 < instant t1)"
    by (simp add: calcTimeDiff_instant)
next
  assume "u \<in> {intervalWEEK, intervalDAY, intervalHOUR, intervalMINUTE, intervalSECOND,
          intervalMICROSECOND}"
  then show "if instant t2 < instant t1 then timestampDiff u t1 t2 \<le> 0
       else 0 \<le> timestampDiff u t1 t2"
    by (rule timestampDiff_fine_sign)
next
  assume v: "validTime t1 \<and> validTime t2"
  show "(instant t2 < instant t1) = earlier t2 t1"
    using v by (simp add: instant_order)
next
  assume v: "validTime t1 \<and> validTime t2"
  assume u: "u \<in> {intervalYEAR, intervalQUARTER, intervalMONTH, intervalWEEK, intervalDAY,
             intervalHOUR, intervalMINUTE, intervalSECOND, intervalMICROSECOND}"
  have e: "earlier t2 t1 = (instant t2 < instant t1)"
    using v by (simp add: instant_order)
  from u consider
    (coarse) "u \<in> {intervalYEAR, intervalQUARTER, intervalMONTH}"
    | (fine) "u \<in> {intervalWEEK, intervalDAY, intervalHOUR, intervalMINUTE, intervalSECOND,
          intervalMICROSECOND}"
    by blast
  then show "if earlier t2 t1 then timestampDiff u t1 t2 \<le> 0
          else 0 \<le> timestampDiff u t1 t2"
  proof cases
    case coarse
    show ?thesis unfolding e using v coarse by (intro timestampDiff_coarse_sign) simp_all
  next
    case fine
    show ?thesis unfolding e using fine by (rule timestampDiff_fine_sign)
  qed
next
  assume v: "validTime t1 \<and> validTime t2" and "earlier t1 t2"
  then have "instant t1 < instant t2" by (simp add: instant_order)
  then show "0 < timestampDiff intervalMICROSECOND t1 t2"
    by (simp add: timestampDiff_fine)
next
  assume v: "validTime t1 \<and> validTime t2" and "earlier t2 t1"
  then have "instant t2 < instant t1" by (simp add: instant_order)
  then show "timestampDiff intervalMICROSECOND t1 t2 < 0"
    by (simp add: timestampDiff_fine)
qed


theorem timestampDiff_sign_witness:
  "validTime (newMysqlTime 2001 2 28 0 0 0 0) \<and> validTime (newMysqlTime 2003 3 1 0 0 0 5) \<and>
   earlier (newMysqlTime 2001 2 28 0 0 0 0) (newMysqlTime 2003 3 1 0 0 0 5) \<and>
   \<not> earlier (newMysqlTime 2003 3 1 0 0 0 5) (newMysqlTime 2001 2 28 0 0 0 0) \<and>
   \<not> snd (snd (calcTimeDiff (newMysqlTime 2003 3 1 0 0 0 5) (newMysqlTime 2001 2 28 0 0 0 0) 1)) \<and>
   0 \<le> timestampDiff intervalMONTH (newMysqlTime 2001 2 28 0 0 0 0) (newMysqlTime 2003 3 1 0 0 0 5) \<and>
   0 < timestampDiff intervalMICROSECOND (newMysqlTime 2001 2 28 0 0 0 0)
         (newMysqlTime 2003 3 1 0 0 0 5) \<and>
   timestampDiff intervalMICROSECOND (newMysqlTime 2003 3 1 0 0 0 5)
         (newMysqlTime 2001 2 28 0 0 0 0) < 0 \<and>
   \<not> instant (newMysqlTime 1999 12 31 0 0 1 0) < instant (newMysqlTime 2000 1 0 0 0 0 0) \<and>
   0 \<le> timestampDiff intervalDAY (newMysqlTime 2000 1 0 0 0 0 0) (newMysqlTime 1999 12 31 0 0 1 0)"
proof -
  have v: "validTime (newMysqlTime 2001 2 28 0 0 0 0)" "validTime (newMysqlTime 2003 3 1 0 0 0 5)"
    by code_simp+
  have e: "earlier (newMysqlTime 2001 2 28 0 0 0 0) (newMysqlTime 2003 3 1 0 0 0 5)"
    "\<not> earlier (newMysqlTime 2003 3 1 0 0 0 5) (newMysqlTime 2001 2 28 0 0 0 0)"
    by code_simp+
  have i: "\<not> instant (newMysqlTime 1999 12 31 0 0 1 0) < instant (newMysqlTime 2000 1 0 0 0 0 0)"
    by code_simp
  show ?thesis
    using v e i
      timestampDiff_sign [of "newMysqlTime 2003 3 1 0 0 0 5" "newMysqlTime 2001 2 28 0 0 0 0"
        intervalMONTH]
      timestampDiff_sign [of "newMysqlTime 2001 2 28 0 0 0 0" "newMysqlTime 2003 3 1 0 0 0 5"
        intervalMONTH]
      timestampDiff_sign [of "newMysqlTime 1999 12 31 0 0 1 0" "newMysqlTime 2000 1 0 0 0 0 0"
        intervalDAY]
    by simp
qed

text \<open>C5 as stated fails for the units counted in months when a date field is not a
  real calendar day: from 2000-01-00 to 1999-12-31 00:00:01 the flag \<open>neg\<close> is false
  (one second later by day number), and the result in months is \<open>-1\<close>, because the
  unsigned month count wraps around.\<close>

theorem timestampDiff_month_negative_when_not_neg:
  "calcTimeDiff (newMysqlTime 1999 12 31 0 0 1 0) (newMysqlTime 2000 1 0 0 0 0 0) 1
     = (1, 0, False) \<and>
   timestampDiff intervalMONTH (newMysqlTime 2000 1 0 0 0 0 0) (newMysqlTime 1999 12 31 0 0 1 0)
     = - 1"
  by code_simp

section \<open>The signed arithmetic stays inside 64 bits\<close>

text \<open>On the fields of time values, the day number is computed without wrapping and
  stays below \<open>2 ^ 25\<close> in absolute value, and the total of \<open>calcTimeDiff\<close> stays below
  \<open>2 ^ 63\<close>, for both signs: the 64-bit arithmetic of the source does not wrap there,
  and \<open>int\<close> models it exactly.\<close>

lemma calcDaynr_exact_range:
  assumes "0 \<le> y" "y < 65536" "0 \<le> m" "m < 256" "0 \<le> d" "d < 256"
  shows "\<bar>calcDaynr_exact y m d\<bar> < 2 ^ 25"
proof -
  define x where "x = (if m \<le> 2 then y - 1 else y)"
  define A where "A = x sdiv 4"
  define C where "C = x sdiv 100"
  define T where "T = ((C + 1) * 3) sdiv 4"
  define E where "E = (m * 4 + 23) sdiv 10"
  have x: "\<bar>x\<bar> \<le> 65535" unfolding x_def using assms by auto
  have A: "\<bar>A\<bar> \<le> 65535" using sdiv_abs_le [of x 4] x unfolding A_def by linarith
  have C: "\<bar>C\<bar> \<le> 65535" using sdiv_abs_le [of x 100] x unfolding C_def by linarith
  have "\<bar>(C + 1) * 3\<bar> \<le> 196608" using C by (auto simp add: abs_le_iff)
  then have T: "\<bar>T\<bar> \<le> 196608" using sdiv_abs_le [of "(C + 1) * 3" 4] unfolding T_def by linarith
  have "\<bar>m * 4 + 23\<bar> \<le> 1043" using assms by linarith
  then have E: "\<bar>E\<bar> \<le> 1043" using sdiv_abs_le [of "m * 4 + 23" 10] unfolding E_def by linarith
  have e: "calcDaynr_exact y m d =
      (if y = 0 \<and> m = 0 then 0
       else if m \<le> 2 then 365 * y + 31 * (m - 1) + d + A - T
       else 365 * y + 31 * (m - 1) + d - E + A - T)"
    unfolding calcDaynr_exact_def Let_def T_def C_def A_def x_def E_def by simp
  show ?thesis
    unfolding e using assms A T E by (simp split: if_splits) linarith
qed

lemma calcDaynr_fields_range: "\<bar>calcDaynr (Year t) (Month t) (Day t)\<bar> < 2 ^ 25"
proof -
  have "calcDaynr (Year t) (Month t) (Day t) = calcDaynr_exact (Year t) (Month t) (Day t)"
    using field_nonneg [of t] field_upper [of t] by (intro calcDaynr_no_wrap) simp_all
  moreover have "\<bar>calcDaynr_exact (Year t) (Month t) (Day t)\<bar> < 2 ^ 25"
    using field_nonneg [of t] field_upper [of t] by (intro calcDaynr_exact_range) simp_all
  ultimately show ?thesis by simp
qed

lemma total_range:
  fixes d1 d2 c1 c2 u1 u2 sign :: int
  assumes "\<bar>d1\<bar> < 2 ^ 25" "\<bar>d2\<bar> < 2 ^ 25"
    and "0 \<le> c1" "c1 < 1000000" "0 \<le> c2" "c2 < 1000000"
    and "0 \<le> u1" "u1 < 2 ^ 32" "0 \<le> u2" "u2 < 2 ^ 32"
    and "sign = 1 \<or> sign = - 1"
  shows "\<bar>((d1 - sign * d2) * 86400 + c1 - sign * c2) * 1000000 + u1 - sign * u2\<bar> < 2 ^ 63"
proof -
  from assms(11) show ?thesis
  proof
    assume "sign = 1"
    then show ?thesis using assms(1-10) by (simp add: algebra_simps)
  next
    assume "sign = - 1"
    then show ?thesis using assms(1-10) by (simp add: algebra_simps)
  qed
qed

lemma calcTimeDiff_total_range:
  assumes "sign = 1 \<or> sign = - 1"
  shows "\<bar>calcTimeDiff_total t1 t2 sign\<bar> < 2 ^ 63"
proof -
  have c: "0 \<le> Hour t * 3600 + Minute t * 60 + Second t"
    "Hour t * 3600 + Minute t * 60 + Second t < 1000000" for t
    using field_nonneg [of t] field_upper [of t] by linarith+
  have u: "0 \<le> Microsecond t" "Microsecond t < 2 ^ 32" for t
    using field_nonneg [of t] field_upper [of t] by simp_all
  have "\<bar>((calcDaynr (Year t1) (Month t1) (Day t1)
            - sign * calcDaynr (Year t2) (Month t2) (Day t2)) * 86400
          + (Hour t1 * 3600 + Minute t1 * 60 + Second t1)
          - sign * (Hour t2 * 3600 + Minute t2 * 60 + Second t2)) * 1000000
        + Microsecond t1 - sign * Microsecond t2\<bar> < 2 ^ 63"
    by (rule total_range [OF calcDaynr_fields_range calcDaynr_fields_range c c u u assms])
  then show ?thesis
    by (simp add: calcTimeDiff_total_def Let_def secondsIn24Hour_def add.assoc)
qed

section \<open>Elapsed seconds\<close>

text \<open>
  C6 (as amended). For non-negative seconds and microseconds, \<open>calcTimeFromSec\<close> sets
  minute to \<open>(seconds mod 3600) div 60\<close> and second to \<open>seconds mod 60\<close>; the hour
  field is 8 bits wide and holds \<open>seconds div 3600\<close> modulo 256, which is
  \<open>seconds div 3600\<close> itself (up to 255, beyond the wall-clock range) when
  \<open>seconds < 921600\<close>; the microsecond field is 32 bits wide and holds the given
  microseconds modulo \<open>2 ^ 32\<close>, unchanged when they are below \<open>2 ^ 32\<close>. The date
  fields are left as they were.
\<close>

theorem calcTimeFromSec_fields:
  assumes "0 \<le> seconds" and "0 \<le> microseconds"
  shows "Hour (calcTimeFromSec to seconds microseconds) = (seconds div 3600) mod 256 \<and>
         Minute (calcTimeFromSec to seconds microseconds) = (seconds mod 3600) div 60 \<and>
         Second (calcTimeFromSec to seconds microseconds) = seconds mod 60 \<and>
         Microsecond (calcTimeFromSec to seconds microseconds) = microseconds mod 2 ^ 32 \<and>
         (seconds < 921600 \<longrightarrow>
            Hour (calcTimeFromSec to seconds microseconds) = seconds div 3600) \<and>
         (microseconds < 2 ^ 32 \<longrightarrow>
            Microsecond (calcTimeFromSec to seconds microseconds) = microseconds) \<and>
         year (calcTimeFromSec to seconds microseconds) = year to \<and>
         month (calcTimeFromSec to seconds microseconds) = month to \<and>
         day (calcTimeFromSec to seconds microseconds) = day to"
proof -
  have s1: "seconds smod 3600 = seconds mod 3600" "seconds sdiv 3600 = seconds div 3600"
    using assms by (simp_all add: sdiv_nonneg smod_nonneg)
  have r: "0 \<le> seconds mod 3600" "seconds mod 3600 < 3600" by simp_all
  have s2: "(seconds mod 3600) sdiv 60 = (seconds mod 3600) div 60"
    "(seconds mod 3600) smod 60 = (seconds mod 3600) mod 60"
    using r by (simp_all add: sdiv_nonneg smod_nonneg)
  have m60: "(seconds mod 3600) mod 60 = seconds mod 60"
    by (rule mod_mod_cancel) simp
  have "(seconds mod 3600) div 60 \<le> 3599 div 60"
    using r by (intro zdiv_mono1) simp_all
  then have mi: "(seconds mod 3600) div 60 < 60" "0 \<le> (seconds mod 3600) div 60"
    using r by (simp_all add: pos_imp_zdiv_nonneg_iff)
  have h: "seconds div 3600 < 256" if "seconds < 921600"
  proof -
    have "seconds div 3600 \<le> 921599 div 3600"
      using that by (intro zdiv_mono1) simp_all
    then show ?thesis by simp
  qed
  have h0: "0 \<le> seconds div 3600" using assms by (simp add: pos_imp_zdiv_nonneg_iff)
  show ?thesis
    using assms mi h h0
    by (simp add: calcTimeFromSec_def Let_def Hour_def Minute_def Second_def Microsecond_def
        s1 s2 m60 uint_word_of_int take_bit_eq_mod)
qed

theorem calcTimeFromSec_fields_witness:
  "Hour (calcTimeFromSec (newMysqlTime 0 0 0 0 0 0 0) 360000 4294967297) = 100 \<and>
   Minute (calcTimeFromSec (newMysqlTime 0 0 0 0 0 0 0) 3725 7) = 2 \<and>
   Second (calcTimeFromSec (newMysqlTime 0 0 0 0 0 0 0) 3725 7) = 5 \<and>
   Microsecond (calcTimeFromSec (newMysqlTime 0 0 0 0 0 0 0) 3725 7) = 7 \<and>
   Microsecond (calcTimeFromSec (newMysqlTime 0 0 0 0 0 0 0) 360000 4294967297) = 1"
  using calcTimeFromSec_fields [of 360000 4294967297 "newMysqlTime 0 0 0 0 0 0 0"]
    calcTimeFromSec_fields [of 3725 7 "newMysqlTime 0 0 0 0 0 0 0"]
  by simp

text \<open>C6 as stated fails: 921600 seconds are 256 hours, and the hour field holds 0.\<close>

theorem calcTimeFromSec_hour_wraps:
  "Hour (calcTimeFromSec (newMysqlTime 0 0 0 0 0 0 0) 921600 0) = 0 \<and>
   (921600 :: int) sdiv 3600 = 256"
  by code_simp

section \<open>Conversion to the standard calendar\<close>

text \<open>The calendar reads back a month and a day that are at least 1, so a time value
  with month 0 or day 0 never converts.\<close>

lemma yday_range:
  fixes d3 :: int
  assumes "0 \<le> d3" and "d3 < 1461"
  shows "0 \<le> d3 - 365 * min 3 (d3 div 365)" and "d3 - 365 * min 3 (d3 div 365) \<le> 365"
proof -
  define q where "q = d3 div 365"
  define r where "r = d3 mod 365"
  have e: "d3 = 365 * q + r" unfolding q_def r_def by simp
  have r: "0 \<le> r" "r < 365" unfolding r_def by simp_all
  have q: "0 \<le> q" "q \<le> 4" using e r assms by linarith+
  show "0 \<le> d3 - 365 * min 3 (d3 div 365)"
    unfolding q_def [symmetric] using e r q by (simp add: min_def)
  show "d3 - 365 * min 3 (d3 div 365) \<le> 365"
    unfolding q_def [symmetric] using e r q assms by (simp add: min_def)
qed

lemma daysBefore_le:
  assumes "0 \<le> dd" and "dd \<le> 365"
  shows "gotime_daysBefore ! nat (dd div 31) \<le> dd"
proof -
  define m where "m = dd div 31"
  define r where "r = dd mod 31"
  have e: "dd = 31 * m + r" unfolding m_def r_def by simp
  have r: "0 \<le> r" "r < 31" unfolding r_def by simp_all
  have m: "0 \<le> m" "m \<le> 11" using e r assms by linarith+
  have "m = 0 \<or> m = 1 \<or> m = 2 \<or> m = 3 \<or> m = 4 \<or> m = 5 \<or> m = 6 \<or> m = 7 \<or> m = 8 \<or>
        m = 9 \<or> m = 10 \<or> m = 11"
  proof -
    have "[0..11::int] = [0, 1, 2, 3, 4, 5, 6, 7, 8, 9, 10, 11]" by code_simp
    moreover have "m \<in> set [0..11]" using m by simp
    ultimately have "m \<in> set [0, 1, 2, 3, 4, 5, 6, 7, 8, 9, 10, 11 :: int]" by simp
    then show ?thesis by simp
  qed
  then have "gotime_daysBefore ! nat m \<le> 31 * m"
    by (elim disjE) (simp_all add: gotime_daysBefore_def)
  then show ?thesis unfolding m_def [symmetric] using e r by linarith
qed

lemma gotime_date_month_day:
  "1 \<le> fst (snd (gotime_date tm)) \<and> 1 \<le> snd (snd (gotime_date tm))"
proof -
  define d3 where "d3 = (secs tm div 86400 mod 146097
      - 36524 * min 3 (secs tm div 86400 mod 146097 div 36524)) mod 1461"
  define yday where "yday = d3 - 365 * min 3 (d3 div 365)"
  define y where "y = 400 * (secs tm div 86400 div 146097)
      + 100 * min 3 (secs tm div 86400 mod 146097 div 36524)
      + 4 * ((secs tm div 86400 mod 146097
               - 36524 * min 3 (secs tm div 86400 mod 146097 div 36524)) div 1461)
      + min 3 (d3 div 365) + 1"
  define dd where "dd = (if gotime_isLeap y \<and> yday > 31 + 29 - 1 then yday - 1 else yday)"
  have d3: "0 \<le> d3" "d3 < 1461" unfolding d3_def by simp_all
  have yd: "0 \<le> yday" "yday \<le> 365"
    unfolding yday_def by (rule yday_range [OF d3])+
  have dd: "0 \<le> dd" "dd \<le> 365" unfolding dd_def using yd by auto
  have g: "gotime_date tm =
     (if gotime_isLeap y \<and> yday = 31 + 29 - 1 then (y, 2, 29)
      else if dd \<ge> gotime_daysBefore ! nat (dd div 31 + 1)
           then (y, dd div 31 + 2, dd - gotime_daysBefore ! nat (dd div 31 + 1) + 1)
           else (y, dd div 31 + 1, dd - gotime_daysBefore ! nat (dd div 31) + 1))"
    unfolding gotime_date_def Let_def dd_def yday_def y_def d3_def by (simp only:)
  have m0: "0 \<le> dd div 31" using dd by (simp add: pos_imp_zdiv_nonneg_iff)
  have le: "gotime_daysBefore ! nat (dd div 31) \<le> dd"
    by (rule daysBefore_le [OF dd])
  show ?thesis unfolding g using m0 le by auto
qed

lemma GoTime_zero_field:
  assumes "Month t = 0 \<or> Day t = 0"
  shows "snd (GoTime t) = Some ErrInvalidTimeFormat"
proof -
  define tm where "tm = gotime_Date (Year t) (Month t) (Day t) (Hour t) (Minute t) (Second t)
                 (Microsecond t * 1000)"
  obtain y m d where ymd: "gotime_date tm = (y, m, d)" by (cases "gotime_date tm") auto
  have "1 \<le> m" "1 \<le> d" using gotime_date_month_day [of tm] ymd by simp_all
  then have "m \<noteq> Month t \<or> d \<noteq> Day t" using assms by auto
  then show ?thesis
    unfolding GoTime_def Let_def tm_def [symmetric] ymd
    by (auto split: prod.splits)
qed

text \<open>
  C4. \<open>GoTime\<close> fails with \<open>ErrInvalidTimeFormat\<close> if and only if a field read back
  from the converted time (year, month, day, hour, minute, second, microsecond) differs
  from the field given, it has no other outcome than this failure or success, and in
  both cases it returns the converted (normalised) time. A time value with month 0 or
  day 0 always fails. Year 2006, month 12, day 0 fails (the calendar normalises it to
  2006-11-30); year 2024, month 2, day 29 succeeds.
\<close>

theorem GoTime_error_iff:
  "(snd (GoTime t) = Some ErrInvalidTimeFormat) =
     (gotime_date (fst (GoTime t)) \<noteq> (Year t, Month t, Day t) \<or>
      gotime_clock (fst (GoTime t)) \<noteq> (Hour t, Minute t, Second t) \<or>
      gotime_Nanosecond (fst (GoTime t)) sdiv 1000 \<noteq> Microsecond t) \<and>
   (snd (GoTime t) = None) =
     (gotime_date (fst (GoTime t)) = (Year t, Month t, Day t) \<and>
      gotime_clock (fst (GoTime t)) = (Hour t, Minute t, Second t) \<and>
      gotime_Nanosecond (fst (GoTime t)) sdiv 1000 = Microsecond t) \<and>
   fst (GoTime t) =
     gotime_Date (Year t) (Month t) (Day t) (Hour t) (Minute t) (Second t)
       (Microsecond t * 1000) \<and>
   (Month t = 0 \<or> Day t = 0 \<longrightarrow> snd (GoTime t) = Some ErrInvalidTimeFormat) \<and>
   snd (GoTime (newMysqlTime 2006 12 0 0 0 0 0)) = Some ErrInvalidTimeFormat \<and>
   gotime_date (fst (GoTime (newMysqlTime 2006 12 0 0 0 0 0))) = (2006, 11, 30) \<and>
   snd (GoTime (newMysqlTime 2024 2 29 0 0 0 0)) = None"
proof -
  have g: "(snd (GoTime t) = Some ErrInvalidTimeFormat) =
     (gotime_date (fst (GoTime t)) \<noteq> (Year t, Month t, Day t) \<or>
      gotime_clock (fst (GoTime t)) \<noteq> (Hour t, Minute t, Second t) \<or>
      gotime_Nanosecond (fst (GoTime t)) sdiv 1000 \<noteq> Microsecond t)"
    by (auto simp add: GoTime_def Let_def split: prod.splits)
  have n: "(snd (GoTime t) = None) =
     (gotime_date (fst (GoTime t)) = (Year t, Month t, Day t) \<and>
      gotime_clock (fst (GoTime t)) = (Hour t, Minute t, Second t) \<and>
      gotime_Nanosecond (fst (GoTime t)) sdiv 1000 = Microsecond t)"
    by (auto simp add: GoTime_def Let_def split: prod.splits)
  have f: "fst (GoTime t) =
     gotime_Date (Year t) (Month t) (Day t) (Hour t) (Minute t) (Second t)
       (Microsecond t * 1000)"
    by (simp add: GoTime_def Let_def split: prod.splits)
  have c: "snd (GoTime (newMysqlTime 2006 12 0 0 0 0 0)) = Some ErrInvalidTimeFormat"
    "gotime_date (fst (GoTime (newMysqlTime 2006 12 0 0 0 0 0))) = (2006, 11, 30)"
    "snd (GoTime (newMysqlTime 2024 2 29 0 0 0 0)) = None"
    by code_simp+
  have z: "Month t = 0 \<or> Day t = 0 \<longrightarrow> snd (GoTime t) = Some ErrInvalidTimeFormat"
    using GoTime_zero_field [of t] by blast
  show ?thesis using g n f z c by (simp only: simp_thms)
qed

theorem GoTime_error_iff_witness:
  "snd (GoTime (newMysqlTime 2023 2 29 10 20 30 40)) = Some ErrInvalidTimeFormat \<and>
   gotime_date (fst (GoTime (newMysqlTime 2023 2 29 10 20 30 40))) = (2023, 3, 1) \<and>
   gotime_clock (fst (GoTime (newMysqlTime 2023 2 29 10 20 30 40))) = (10, 20, 30) \<and>
   Day (newMysqlTime 2006 12 0 10 20 30 40) = 0 \<and>
   snd (GoTime (newMysqlTime 2006 12 0 10 20 30 40)) = Some ErrInvalidTimeFormat"
proof -
  have d: "gotime_date (fst (GoTime (newMysqlTime 2023 2 29 10 20 30 40))) = (2023, 3, 1)"
    "gotime_clock (fst (GoTime (newMysqlTime 2023 2 29 10 20 30 40))) = (10, 20, 30)"
    "Month (newMysqlTime 2023 2 29 10 20 30 40) = 2"
    "Day (newMysqlTime 2006 12 0 10 20 30 40) = 0"
    by code_simp+
  show ?thesis
    using GoTime_error_iff [of "newMysqlTime 2023 2 29 10 20 30 40"]
      GoTime_error_iff [of "newMysqlTime 2006 12 0 10 20 30 40"] d
    by simp
qed

end
